theory Spec2Isabelle
  imports Complex_Main "HOL-Library.AList" "HOL-Library.Word"
begin

section \<open>Python exceptions\<close>

text \<open>
  Every \<^verbatim>\<open>raise\<close> of the modelled Python code is a value of this type; a function that
  can raise returns \<open>exn + 'a\<close>, with \<open>Inl\<close> for the exception.
\<close>

datatype exn =
    KeyError string
  | IndexError
  | ZeroDivisionError
  | NotImplementedError
  | ValueError
  | TypeError
  | UpdateError string

section \<open>Checkpoint saver context (\<^verbatim>\<open>rl_tools/save.py\<close>)\<close>

text \<open>
  \<^verbatim>\<open>Saver.save(step, ckpt)\<close> hands the pair to the checkpoint manager. The model keeps the
  manager's side as the list of the pairs handed over, oldest first.
  \<^verbatim>\<open>SaverContext\<close> has the fields \<^verbatim>\<open>saver\<close>, \<^verbatim>\<open>save_frequency\<close>, \<^verbatim>\<open>cur_step\<close> and
  \<^verbatim>\<open>cur_state\<close>; \<^verbatim>\<open>cur_state\<close> starts as Python's \<^verbatim>\<open>None\<close>, and \<^verbatim>\<open>update\<close> is typed to
  receive a train state, so a recorded state is \<open>Some st\<close>.
\<close>

type_synonym 's saver = "(int \<times> 's) list"

definition save :: "'s saver \<Rightarrow> int \<Rightarrow> 's \<Rightarrow> 's saver" where
  "save sv step ckpt = sv @ [(step, ckpt)]"

record 's saver_context =
  saver :: "'s saver"
  save_frequency :: int
  cur_step :: int
  cur_state :: "'s option"

definition saver_context_init :: "'s saver \<Rightarrow> int \<Rightarrow> 's saver_context" where
  "saver_context_init sv f =
     \<lparr>saver = sv, save_frequency = f, cur_step = 0, cur_state = None\<rparr>"

text \<open>
  \<^verbatim>\<open>update\<close> first records the pair, then returns early for a negative frequency, then
  takes \<^verbatim>\<open>step % self.save_frequency\<close>, which raises for frequency zero (the recorded pair
  stays in the object), and saves when the remainder is zero. The result is the object
  after the call together with the exception, if one was raised. For a positive divisor
  Python's \<^verbatim>\<open>%\<close> is \<open>mod\<close> on \<open>int\<close>.
\<close>

definition update :: "'s saver_context \<Rightarrow> int \<Rightarrow> 's \<Rightarrow> 's saver_context \<times> exn option" where
  "update c step st =
     (let c1 = c\<lparr>cur_step := step, cur_state := Some st\<rparr> in
      if save_frequency c1 < 0 then (c1, None)
      else if save_frequency c1 = 0 then (c1, Some ZeroDivisionError)
      else if step mod save_frequency c1 \<noteq> 0 then (c1, None)
      else (c1\<lparr>saver := save (saver c1) step st\<rparr>, None))"

definition exit_context :: "'s saver_context \<Rightarrow> 's saver_context" where
  "exit_context c =
     (case cur_state c of
        None \<Rightarrow> c
      | Some st \<Rightarrow> c\<lparr>saver := save (saver c) (cur_step c) st\<rparr>)"

text \<open>A run of \<^verbatim>\<open>update\<close> calls inside the \<^verbatim>\<open>with\<close> block; the first exception ends the block.\<close>

fun updates :: "'s saver_context \<Rightarrow> (int \<times> 's) list \<Rightarrow> 's saver_context \<times> exn option" where
  "updates c [] = (c, None)"
| "updates c ((step, st) # us) =
     (case update c step st of
        (c', None) \<Rightarrow> updates c' us
      | (c', Some e) \<Rightarrow> (c', Some e))"

section \<open>Update pipeline (\<^verbatim>\<open>rl_tools/algos/pipeline.py\<close>)\<close>

text \<open>
  \<^verbatim>\<open>jax.random.split(key, num)\<close> returns an array of \<open>num\<close> keys. The generator is not part
  of the repository: throughout, \<open>split key num i\<close> stands for the \<open>i\<close>-th of these keys,
  and \<open>split\<close> is a parameter.

  An \<^verbatim>\<open>UpdateModule\<close> pairs an update function with a state. The update function is a
  parameter that may raise; diagnostics dictionaries are maps from names to values, and
  \<^verbatim>\<open>info |= module_info\<close> is \<open>info ++ module_info\<close>.
\<close>

record ('s, 'k, 'b, 'v) update_module =
  update_fn :: "'s \<Rightarrow> 'k \<Rightarrow> 'b \<Rightarrow> exn + ('s \<times> (string \<rightharpoonup> 'v))"
  state :: 's

text \<open>
  The loop of \<^verbatim>\<open>update_pipeline\<close>, at index \<open>i\<close>. The list \<^verbatim>\<open>update_modules\<close> is the
  caller's list object, and \<^verbatim>\<open>update_modules[i] = module.replace(state=state)\<close> stores a
  new module into its slot \<open>i\<close>. The first component of the result is the content of that
  list object when the loop ends, by exhaustion or by an exception of an update function.
\<close>

function update_loop ::
  "('k \<Rightarrow> nat \<Rightarrow> nat \<Rightarrow> 'k) \<Rightarrow> 'b \<Rightarrow> nat \<Rightarrow> ('s, 'k, 'b, 'v) update_module list \<Rightarrow> 'k
     \<Rightarrow> (string \<rightharpoonup> 'v)
     \<Rightarrow> ('s, 'k, 'b, 'v) update_module list \<times> (exn + (string \<rightharpoonup> 'v))" where
  "update_loop split batch i update_modules key info =
     (if i < length update_modules then
        (let module = update_modules ! i;
             key' = split key 2 0;
             sub_key = split key 2 1 in
         case update_fn module (state module) sub_key batch of
           Inl e \<Rightarrow> (update_modules, Inl e)
         | Inr (st, module_info) \<Rightarrow>
             update_loop split batch (Suc i) (update_modules[i := module\<lparr>state := st\<rparr>]) key'
               (info ++ module_info))
      else (update_modules, Inr info))"
  by pat_completeness auto
termination
  by (relation "measure (\<lambda>(split, batch, i, update_modules, key, info). length update_modules - i)") auto

declare update_loop.simps [simp del]

text \<open>
  \<^verbatim>\<open>update_pipeline\<close> returns the list object it was given together with the merged
  diagnostics; the model returns the final content of the caller's list in both outcomes.
\<close>

definition update_pipeline ::
  "('k \<Rightarrow> nat \<Rightarrow> nat \<Rightarrow> 'k) \<Rightarrow> ('s, 'k, 'b, 'v) update_module list \<Rightarrow> 'k \<Rightarrow> 'b
     \<Rightarrow> ('s, 'k, 'b, 'v) update_module list
        \<times> (exn + (('s, 'k, 'b, 'v) update_module list \<times> (string \<rightharpoonup> 'v)))" where
  "update_pipeline split update_modules key batch =
     (case update_loop split batch 0 update_modules key Map.empty of
        (ms, Inl e) \<Rightarrow> (ms, Inl e)
      | (ms, Inr info) \<Rightarrow> (ms, Inr (ms, info)))"

text \<open>
  Vocabulary for the statements about the pipeline: the key carried into stage \<open>i\<close>, the
  sub-seed stage \<open>i\<close> consumes, the list whose first \<open>i\<close> slots hold modules with the states
  \<open>sts 0, \<dots>, sts (i - 1)\<close>, and the merge of the diagnostics of the first \<open>i\<close> stages.
\<close>

definition carried_key :: "('k \<Rightarrow> nat \<Rightarrow> nat \<Rightarrow> 'k) \<Rightarrow> 'k \<Rightarrow> nat \<Rightarrow> 'k" where
  "carried_key split key i = ((\<lambda>k. split k 2 0) ^^ i) key"

definition sub_seed :: "('k \<Rightarrow> nat \<Rightarrow> nat \<Rightarrow> 'k) \<Rightarrow> 'k \<Rightarrow> nat \<Rightarrow> 'k" where
  "sub_seed split key i = split (carried_key split key i) 2 1"

definition replaced ::
  "('s, 'k, 'b, 'v) update_module list \<Rightarrow> (nat \<Rightarrow> 's) \<Rightarrow> nat \<Rightarrow> ('s, 'k, 'b, 'v) update_module list" where
  "replaced ms sts i = map (\<lambda>j. if j < i then (ms ! j)\<lparr>state := sts j\<rparr> else ms ! j) [0..<length ms]"

definition merged :: "(nat \<Rightarrow> (string \<rightharpoonup> 'v)) \<Rightarrow> nat \<Rightarrow> (string \<rightharpoonup> 'v)" where
  "merged infs i = foldl (++) Map.empty (map infs [0..<i])"

section \<open>Experience pipeline (\<^verbatim>\<open>rl_tools/algos/pipeline.py\<close>)\<close>















section \<open>Vectorized environment pool (\<^verbatim>\<open>rl_tools/envs/wrappers/vector.py\<close>)\<close>

subsection \<open>Values carried by info dictionaries\<close>

text \<open>
  A Python dictionary that is iterated over is an association list in insertion order;
  \<^verbatim>\<open>d[k] = v\<close> is \<open>AList.update k v d\<close>, which keeps the place of an existing key and appends
  a new one. The values of an info dictionary are Python objects of several types:
  \<^verbatim>\<open>None\<close>, booleans, integers, strings, whole observations (stored by the worker under
  \<^verbatim>\<open>final_observation\<close>) and nested info dictionaries (stored under \<^verbatim>\<open>final_info\<close>).
  Floating-point values are outside the values modelled.
\<close>

datatype 'o info_value =
    PNone
  | PBool bool
  | PInt int
  | PStr string
  | Obs 'o
  | Info "(string \<times> 'o info_value) list"

type_synonym 'o info = "(string \<times> 'o info_value) list"

type_synonym ('o, 'r) step_result =
  "'o \<times> 'r \<times> (string \<times> bool) list \<times> (string \<times> bool) list \<times> 'o info"

subsection \<open>The worker process\<close>

text \<open>
  The environment a worker hosts is an object of the PettingZoo library; its methods are
  the fields of \<open>parallel_env\<close>, functions of the environment's state \<open>'e\<close>.
\<close>

record ('e, 'a, 'o, 'r, 'sp) parallel_env =
  env_step :: "'e \<Rightarrow> 'a \<Rightarrow> 'e \<times> ('o, 'r) step_result"
  env_reset :: "'e \<Rightarrow> 'e \<times> ('o \<times> 'o info)"
  env_close :: "'e \<Rightarrow> 'e"
  env_agents :: "'e \<Rightarrow> string list"
  env_num_agents :: "'e \<Rightarrow> nat"
  env_observation_space :: "'e \<Rightarrow> string \<Rightarrow> 'sp"
  env_action_space :: "'e \<Rightarrow> string \<Rightarrow> 'sp"

datatype ('o, 'r, 'sp) reply =
    AgentsReply "string list"
  | NumAgentsReply nat
  | SpacesReply "(string \<times> 'sp) list" "(string \<times> 'sp) list"
  | StepReply "('o, 'r) step_result" bool
  | ResetReply "'o \<times> 'o info"

definition any :: "bool list \<Rightarrow> bool" where
  "any bs = list_ex (\<lambda>b. b) bs"

definition dict_values :: "(string \<times> 'v) list \<Rightarrow> 'v list" where
  "dict_values d = map snd d"

text \<open>
  One turn of the worker's \<^verbatim>\<open>while True\<close> loop on the message \<open>(cmd, data)\<close>: the
  environment afterwards, the reply sent on the connection (if any), and whether the loop
  goes on. An unknown command raises.
\<close>

definition worker_command ::
  "('e, 'a, 'o, 'r, 'sp) parallel_env \<Rightarrow> 'e \<Rightarrow> string \<times> 'a
     \<Rightarrow> exn + ('e \<times> ('o, 'r, 'sp) reply option \<times> bool)" where
  "worker_command E env msg =
     (case msg of (cmd, data) \<Rightarrow>
        if cmd = ''close'' then Inr (env_close E env, None, False)
        else if cmd = ''get_agents'' then Inr (env, Some (AgentsReply (env_agents E env)), True)
        else if cmd = ''get_num_agents'' then
          Inr (env, Some (NumAgentsReply (env_num_agents E env)), True)
        else if cmd = ''get_spaces'' then
          Inr (env,
               Some (SpacesReply
                       (map (\<lambda>agent. (agent, env_observation_space E env agent)) (env_agents E env))
                       (map (\<lambda>agent. (agent, env_action_space E env agent)) (env_agents E env))),
               True)
        else if cmd = ''step'' then
          (case env_step E env data of
             (env1, observation, reward, terminated, truncated, info) \<Rightarrow>
               if any (dict_values terminated) \<or> any (dict_values truncated) then
                 (case env_reset E env1 of
                    (env2, observation', info') \<Rightarrow>
                      Inr (env2,
                           Some (StepReply
                                   (observation', reward, terminated, truncated,
                                    AList.update ''final_info'' (Info info)
                                      (AList.update ''final_observation'' (Obs observation) info'))
                                   True),
                           True))
               else
                 Inr (env1,
                      Some (StepReply (observation, reward, terminated, truncated, info) True),
                      True))
        else if cmd = ''reset'' then
          (case env_reset E env of (env1, r) \<Rightarrow> Inr (env1, Some (ResetReply r), True))
        else Inl NotImplementedError)"

text \<open>The worker on a sequence of messages: the replies it sends, and the exception that ended it.\<close>

fun worker ::
  "('e, 'a, 'o, 'r, 'sp) parallel_env \<Rightarrow> 'e \<Rightarrow> (string \<times> 'a) list
     \<Rightarrow> ('o, 'r, 'sp) reply list \<times> exn option" where
  "worker E env [] = ([], None)"
| "worker E env (msg # msgs) =
     (case worker_command E env msg of
        Inl e \<Rightarrow> ([], Some e)
      | Inr (env', r, continue) \<Rightarrow>
          (if continue then
             (case worker E env' msgs of
                (rs, e) \<Rightarrow> ((case r of None \<Rightarrow> [] | Some x \<Rightarrow> [x]) @ rs, e))
           else ((case r of None \<Rightarrow> [] | Some x \<Rightarrow> [x]), None)))"

subsection \<open>The supervisor: \<^verbatim>\<open>SubProcVecParallelEnv\<close>\<close>

text \<open>
  The supervisor's object has the flags \<^verbatim>\<open>waiting\<close> and \<^verbatim>\<open>closed\<close>, one connection per
  worker, the agent names and \<^verbatim>\<open>num_envs\<close>. A connection is modelled by the messages the
  supervisor has sent on it, oldest first.
\<close>

type_synonym 'a message = "string \<times> (string \<times> 'a) list option"

record 'a sub_proc_vec_env =
  waiting :: bool
  closed :: bool
  parent_conns :: "'a message list list"
  agents :: "string list"
  num_envs :: nat

fun sequence :: "(exn + 'a) list \<Rightarrow> exn + 'a list" where
  "sequence [] = Inr []"
| "sequence (x # xs) =
     (case x of
        Inl e \<Rightarrow> Inl e
      | Inr v \<Rightarrow> (case sequence xs of Inl e \<Rightarrow> Inl e | Inr vs \<Rightarrow> Inr (v # vs)))"

definition getitem :: "'a list \<Rightarrow> nat \<Rightarrow> exn + 'a" where
  "getitem xs i = (if i < length xs then Inr (xs ! i) else Inl IndexError)"

text \<open>\<^verbatim>\<open>{agent: action[i] for agent, action in actions.items()}\<close>\<close>

definition unstack_action :: "(string \<times> 'a list) list \<Rightarrow> nat \<Rightarrow> exn + (string \<times> 'a) list" where
  "unstack_action actions i =
     sequence (map (\<lambda>(agent, action).
                      case getitem action i of Inl e \<Rightarrow> Inl e | Inr x \<Rightarrow> Inr (agent, x)) actions)"

text \<open>
  \<^verbatim>\<open>step_async\<close> builds every worker's action dictionary, then sends one \<^verbatim>\<open>step\<close> message
  per connection and sets \<^verbatim>\<open>waiting\<close>. It reads neither \<^verbatim>\<open>waiting\<close> nor \<^verbatim>\<open>closed\<close>.
\<close>

definition step_async ::
  "'a sub_proc_vec_env \<Rightarrow> (string \<times> 'a list) list \<Rightarrow> exn + 'a sub_proc_vec_env" where
  "step_async self actions =
     (case sequence (map (unstack_action actions) [0..<length (parent_conns self)]) of
        Inl e \<Rightarrow> Inl e
      | Inr unstack_actions \<Rightarrow>
          Inr (self\<lparr>parent_conns :=
                      map (\<lambda>(conn, action). conn @ [(''step'', Some action)])
                        (zip (parent_conns self) unstack_actions),
                    waiting := True\<rparr>))"

subsection \<open>Collecting the replies: \<^verbatim>\<open>step_wait\<close> and \<^verbatim>\<open>_add_info\<close>\<close>

text \<open>
  The merged infos are numpy arrays. An array is its element type and its cells. Of the
  Python types, \<^verbatim>\<open>bool\<close> and \<^verbatim>\<open>int\<close> are the numeric ones among the values modelled; every
  other value gets an array of element type \<^verbatim>\<open>object\<close>.
\<close>

datatype pytype = Tbool | Tint | Tobject

fun type_of :: "'o info_value \<Rightarrow> pytype" where
  "type_of (PBool b) = Tbool"
| "type_of (PInt i) = Tint"
| "type_of v = Tobject"

datatype dtype = Dbool | Dint | Dobject

record 'o ndarray =
  dtype :: dtype
  cells :: "'o info_value list"

definition np_zeros :: "nat \<Rightarrow> dtype \<Rightarrow> 'o ndarray" where
  "np_zeros n d =
     \<lparr>dtype = d,
      cells = replicate n (case d of Dbool \<Rightarrow> PBool False | Dint \<Rightarrow> PInt 0 | Dobject \<Rightarrow> PInt 0)\<rparr>"

text \<open>\<^verbatim>\<open>array[:] = None\<close> on an array of element type \<^verbatim>\<open>object\<close>.\<close>

definition np_fill_none :: "'o ndarray \<Rightarrow> 'o ndarray" where
  "np_fill_none a = a\<lparr>cells := map (\<lambda>c. PNone) (cells a)\<rparr>"

definition init_info_arrays :: "nat \<Rightarrow> pytype \<Rightarrow> 'o ndarray \<times> 'o ndarray" where
  "init_info_arrays n t =
     (let array = (case t of
                     Tint \<Rightarrow> np_zeros n Dint
                   | Tbool \<Rightarrow> np_zeros n Dbool
                   | Tobject \<Rightarrow> np_fill_none (np_zeros n Dobject));
          array_mask = np_zeros n Dbool
      in (array, array_mask))"

text \<open>
  Storing a value into a cell converts it to the array's element type. An \<^verbatim>\<open>object\<close>
  array takes any value as it is, and a boolean array takes a boolean as it is. Every
  other conversion is numpy's and is the parameter \<open>cast\<close>, which may raise. An index
  beyond the array raises.
\<close>

definition np_convert ::
  "(dtype \<Rightarrow> 'o info_value \<Rightarrow> exn + 'o info_value) \<Rightarrow> dtype \<Rightarrow> 'o info_value
     \<Rightarrow> exn + 'o info_value" where
  "np_convert cast d v =
     (case d of
        Dobject \<Rightarrow> Inr v
      | Dbool \<Rightarrow> (case v of PBool b \<Rightarrow> Inr (PBool b) | _ \<Rightarrow> cast Dbool v)
      | Dint \<Rightarrow> cast Dint v)"

definition np_setitem ::
  "(dtype \<Rightarrow> 'o info_value \<Rightarrow> exn + 'o info_value) \<Rightarrow> 'o ndarray \<Rightarrow> nat \<Rightarrow> 'o info_value
     \<Rightarrow> exn + 'o ndarray" where
  "np_setitem cast a i v =
     (if i < length (cells a) then
        (case np_convert cast (dtype a) v of
           Inl e \<Rightarrow> Inl e
         | Inr v' \<Rightarrow> Inr (a\<lparr>cells := (cells a)[i := v']\<rparr>))
      else Inl IndexError)"

text \<open>A loop whose body may raise: the first exception ends it.\<close>

fun for_each :: "('s \<Rightarrow> 'a \<Rightarrow> exn + 's) \<Rightarrow> 's \<Rightarrow> 'a list \<Rightarrow> exn + 's" where
  "for_each body s [] = Inr s"
| "for_each body s (x # xs) =
     (case body s x of Inl e \<Rightarrow> Inl e | Inr s' \<Rightarrow> for_each body s' xs)"

text \<open>
  The merged dictionary \<^verbatim>\<open>infos\<close> is only looked up and assigned to, so it is a map. The
  body of the loop of \<^verbatim>\<open>_add_info\<close> for the key \<open>k\<close>; \<^verbatim>\<open>f"_{k}"\<close> is the key with an
  underscore in front.
\<close>

definition add_info_key ::
  "(dtype \<Rightarrow> 'o info_value \<Rightarrow> exn + 'o info_value) \<Rightarrow> nat \<Rightarrow> 'o info \<Rightarrow> nat
     \<Rightarrow> (string \<rightharpoonup> 'o ndarray) \<Rightarrow> string \<Rightarrow> exn + (string \<rightharpoonup> 'o ndarray)" where
  "add_info_key cast n info env_num infos k =
     (case map_of info k of
        None \<Rightarrow> Inl (KeyError k)
      | Some v \<Rightarrow>
          (case (case infos k of
                   None \<Rightarrow> Inr (init_info_arrays n (type_of v))
                 | Some info_array \<Rightarrow>
                     (case infos (CHR ''_'' # k) of
                        None \<Rightarrow> Inl (KeyError (CHR ''_'' # k))
                      | Some array_mask \<Rightarrow> Inr (info_array, array_mask))) of
             Inl e \<Rightarrow> Inl e
           | Inr (info_array, array_mask) \<Rightarrow>
               (case np_setitem cast info_array env_num v of
                  Inl e \<Rightarrow> Inl e
                | Inr info_array' \<Rightarrow>
                    (case np_setitem cast array_mask env_num (PBool True) of
                       Inl e \<Rightarrow> Inl e
                     | Inr array_mask' \<Rightarrow>
                         Inr (infos(k \<mapsto> info_array', CHR ''_'' # k \<mapsto> array_mask'))))))"

definition add_info ::
  "(dtype \<Rightarrow> 'o info_value \<Rightarrow> exn + 'o info_value) \<Rightarrow> nat \<Rightarrow> (string \<rightharpoonup> 'o ndarray)
     \<Rightarrow> 'o info \<Rightarrow> nat \<Rightarrow> exn + (string \<rightharpoonup> 'o ndarray)" where
  "add_info cast n infos info env_num =
     for_each (add_info_key cast n info env_num) infos (map fst info)"

text \<open>\<^verbatim>\<open>acc[agent_id].append(d[agent_id])\<close>\<close>

definition append_item ::
  "(string \<rightharpoonup> 'v list) \<Rightarrow> string \<Rightarrow> (string \<times> 'v) list \<Rightarrow> exn + (string \<rightharpoonup> 'v list)" where
  "append_item acc agent_id d =
     (case acc agent_id of
        None \<Rightarrow> Inl (KeyError agent_id)
      | Some xs \<Rightarrow>
          (case map_of d agent_id of
             None \<Rightarrow> Inl (KeyError agent_id)
           | Some x \<Rightarrow> Inr (acc(agent_id \<mapsto> xs @ [x]))))"

type_synonym ('ob, 'rw) collected =
  "(string \<rightharpoonup> 'ob list) \<times> (string \<rightharpoonup> 'rw list) \<times> (string \<rightharpoonup> bool list) \<times> (string \<rightharpoonup> bool list)
     \<times> (string \<rightharpoonup> (string \<times> 'ob) list ndarray)"

type_synonym ('ob, 'rw) pool_reply = "((string \<times> 'ob) list, (string \<times> 'rw) list) step_result \<times> bool"

text \<open>
  The body of the inner loop of \<^verbatim>\<open>step_wait\<close>, for worker \<open>i\<close>'s result and one agent.
  The call of \<^verbatim>\<open>_add_info\<close> stands inside this loop, so it runs once per agent.
\<close>

definition step_wait_agent ::
  "(dtype \<Rightarrow> (string \<times> 'ob) list info_value \<Rightarrow> exn + (string \<times> 'ob) list info_value) \<Rightarrow> nat
     \<Rightarrow> ((string \<times> 'ob) list, (string \<times> 'rw) list) step_result \<Rightarrow> nat
     \<Rightarrow> ('ob, 'rw) collected \<Rightarrow> string \<Rightarrow> exn + ('ob, 'rw) collected" where
  "step_wait_agent cast n result i acc agent_id =
     (case result of (obs, rew, terminated, truncated, info) \<Rightarrow>
      case acc of (observations, rewards, terminateds, truncateds, infos) \<Rightarrow>
        (case append_item observations agent_id obs of
           Inl e \<Rightarrow> Inl e
         | Inr observations' \<Rightarrow>
        (case append_item rewards agent_id rew of
           Inl e \<Rightarrow> Inl e
         | Inr rewards' \<Rightarrow>
        (case append_item terminateds agent_id terminated of
           Inl e \<Rightarrow> Inl e
         | Inr terminateds' \<Rightarrow>
        (case append_item truncateds agent_id truncated of
           Inl e \<Rightarrow> Inl e
         | Inr truncateds' \<Rightarrow>
        (case add_info cast n infos info i of
           Inl e \<Rightarrow> Inl e
         | Inr infos' \<Rightarrow>
             Inr (observations', rewards', terminateds', truncateds', infos')))))))"

text \<open>
  The body of the outer loop: \<open>recv i\<close> is what \<^verbatim>\<open>conn.recv()\<close> delivers on connection \<open>i\<close>,
  the pair of worker \<open>i\<close>'s result and its success flag.
\<close>

definition step_wait_conn ::
  "(dtype \<Rightarrow> (string \<times> 'ob) list info_value \<Rightarrow> exn + (string \<times> 'ob) list info_value) \<Rightarrow> nat
     \<Rightarrow> string list \<Rightarrow> (nat \<Rightarrow> ('ob, 'rw) pool_reply)
     \<Rightarrow> ('ob, 'rw) collected \<Rightarrow> nat \<Rightarrow> exn + ('ob, 'rw) collected" where
  "step_wait_conn cast n agent_ids recv acc i =
     (case recv i of (result, success) \<Rightarrow>
        for_each (step_wait_agent cast n result i) acc agent_ids)"

definition empty_lists :: "string list \<Rightarrow> (string \<rightharpoonup> 'v list)" where
  "empty_lists agent_ids = map_of (map (\<lambda>agent_id. (agent_id, [])) agent_ids)"

definition step_wait ::
  "(dtype \<Rightarrow> (string \<times> 'ob) list info_value \<Rightarrow> exn + (string \<times> 'ob) list info_value)
     \<Rightarrow> 'a sub_proc_vec_env \<Rightarrow> (nat \<Rightarrow> ('ob, 'rw) pool_reply)
     \<Rightarrow> exn + ('a sub_proc_vec_env \<times> ('ob, 'rw) collected)" where
  "step_wait cast self recv =
     (case for_each (step_wait_conn cast (num_envs self) (agents self) recv)
             (empty_lists (agents self), empty_lists (agents self), empty_lists (agents self),
              empty_lists (agents self), Map.empty)
             [0..<length (parent_conns self)] of
        Inl e \<Rightarrow> Inl e
      | Inr acc \<Rightarrow> Inr (self\<lparr>waiting := False\<rparr>, acc))"

text \<open>
  Vocabulary for the statement about the merged infos: the info of worker \<open>i\<close>'s reply, the
  values the workers report under a key, the first of them, the element type and the cell
  of a worker that reports nothing.
\<close>

definition reply_info :: "(nat \<Rightarrow> ('ob, 'rw) pool_reply) \<Rightarrow> nat \<Rightarrow> (string \<times> 'ob) list info" where
  "reply_info recv i = (case recv i of ((obs, rew, terminated, truncated, info), success) \<Rightarrow> info)"

definition dtype_of :: "'o info_value \<Rightarrow> dtype" where
  "dtype_of v = (case type_of v of Tbool \<Rightarrow> Dbool | Tint \<Rightarrow> Dint | Tobject \<Rightarrow> Dobject)"

definition default_cell :: "dtype \<Rightarrow> 'o info_value" where
  "default_cell d = (case d of Dbool \<Rightarrow> PBool False | Dint \<Rightarrow> PInt 0 | Dobject \<Rightarrow> PNone)"

definition info_column :: "string \<Rightarrow> 'o info list \<Rightarrow> 'o info_value option list" where
  "info_column k infos = map (\<lambda>info. map_of info k) infos"

definition first_reported :: "'o info_value option list \<Rightarrow> 'o info_value option" where
  "first_reported col = (case filter (\<lambda>x. x \<noteq> None) col of [] \<Rightarrow> None | x # xs \<Rightarrow> x)"

text \<open>
  The state of the merged infos in the middle of the loops, for the proofs: \<open>seen i k\<close>
  says that worker \<open>i\<close>'s value for the key \<open>k\<close> has been stored.
\<close>

definition key_dtype :: "nat \<Rightarrow> (nat \<Rightarrow> 'o info) \<Rightarrow> string \<Rightarrow> dtype" where
  "key_dtype n I k =
     (case first_reported (info_column k (map I [0..<n])) of None \<Rightarrow> Dobject | Some v \<Rightarrow> dtype_of v)"

definition merged_infos ::
  "nat \<Rightarrow> (nat \<Rightarrow> 'o info) \<Rightarrow> (nat \<Rightarrow> string \<Rightarrow> bool) \<Rightarrow> (string \<rightharpoonup> 'o ndarray)" where
  "merged_infos n I seen k =
     (if \<exists>i<n. seen i k then
        Some \<lparr>dtype = key_dtype n I k,
              cells = map (\<lambda>i. if seen i k then the (map_of (I i) k)
                                else default_cell (key_dtype n I k)) [0..<n]\<rparr>
      else
        (case k of
           [] \<Rightarrow> None
         | c # k' \<Rightarrow>
             if c = CHR ''_'' \<and> (\<exists>i<n. seen i k')
             then Some \<lparr>dtype = Dbool, cells = map (\<lambda>i. PBool (seen i k')) [0..<n]\<rparr>
             else None))"

definition seen_before :: "(nat \<Rightarrow> 'o info) \<Rightarrow> nat \<Rightarrow> nat \<Rightarrow> string \<Rightarrow> bool" where
  "seen_before I m i k = (i < m \<and> map_of (I i) k \<noteq> None)"

text \<open>A reply covers the agents when its four per-agent dictionaries have an entry for each.\<close>

definition reply_covers :: "string list \<Rightarrow> ('ob, 'rw) pool_reply \<Rightarrow> bool" where
  "reply_covers agent_ids reply =
     (case reply of ((obs, rew, terminated, truncated, info), success) \<Rightarrow>
        \<forall>a \<in> set agent_ids.
          map_of obs a \<noteq> None \<and> map_of rew a \<noteq> None \<and>
          map_of terminated a \<noteq> None \<and> map_of truncated a \<noteq> None)"

definition has_agents :: "string list \<Rightarrow> (string \<rightharpoonup> 'v list) \<Rightarrow> bool" where
  "has_agents agent_ids acc = (\<forall>a \<in> set agent_ids. acc a \<noteq> None)"

section \<open>Training state and target networks (\<^verbatim>\<open>rl/algos/td3.py\<close>, \<^verbatim>\<open>rl_tools/algos/named/sac.py\<close>)\<close>

text \<open>
  A parameter container is treated as the flat list of its leaves, and a leaf as a real
  number: the arithmetic of the target update is exact, rounding is not modelled. A train
  state holds the live parameters, the target parameters (absent for a sub-state created
  without them) and the optimizer state.
\<close>

record 'opt train_state =
  params :: "real list"
  target_params :: "real list option"
  opt_state :: 'opt

text \<open>
  \<^verbatim>\<open>optax.incremental_update(new_tensors, old_tensors, step_size)\<close> maps
  \<^verbatim>\<open>step_size * new + (1 - step_size) * old\<close> over the leaves of two containers of the same
  structure, and raises when the structures differ.
\<close>

definition incremental_update :: "real list \<Rightarrow> real list option \<Rightarrow> real \<Rightarrow> exn + real list" where
  "incremental_update new_tensors old_tensors step_size =
     (case old_tensors of
        None \<Rightarrow> Inl ValueError
      | Some old_leaves \<Rightarrow>
          if length new_tensors = length old_leaves
          then Inr (map (\<lambda>(new, old). step_size * new + (1 - step_size) * old)
                      (zip new_tensors old_leaves))
          else Inl ValueError)"

text \<open>
  \<^verbatim>\<open>init_params\<close> (\<^verbatim>\<open>rl/modules/modules.py\<close>): \<open>module_init key\<close> stands for
  \<^verbatim>\<open>module.init(key, *dummy_inputs)\<close>; \<^verbatim>\<open>tabulate\<close> only prints a table.
\<close>

definition init_params :: "('k \<Rightarrow> (string \<times> real list) list) \<Rightarrow> 'k \<Rightarrow> bool \<Rightarrow> real list" where
  "init_params module_init key tabulate =
     (let variables = module_init key in
      case map_of variables ''params'' of Some p \<Rightarrow> p | None \<Rightarrow> [])"

definition create :: "(real list \<Rightarrow> 'opt) \<Rightarrow> real list \<Rightarrow> real list option \<Rightarrow> 'opt train_state" where
  "create tx_init ps tps = \<lparr>params = ps, target_params = tps, opt_state = tx_init ps\<rparr>"

record 'opt td3_train_state =
  policy_state :: "'opt train_state"
  qvalue_state :: "'opt train_state"

record 'opt sac_train_state = "'opt td3_train_state" +
  alpha_state :: "'opt train_state"

definition train_state_ddpg_factory ::
  "('k \<Rightarrow> nat \<Rightarrow> nat \<Rightarrow> 'k) \<Rightarrow> ('k \<Rightarrow> (string \<times> real list) list)
     \<Rightarrow> ('k \<Rightarrow> (string \<times> real list) list) \<Rightarrow> (real list \<Rightarrow> 'opt) \<Rightarrow> 'k \<Rightarrow> bool
     \<Rightarrow> 'opt td3_train_state" where
  "train_state_ddpg_factory split policy_init qvalue_init tx_init key tabulate =
     (let key1 = split key 2 0; key2 = split key 2 1 in
      \<lparr>policy_state =
         create tx_init (init_params policy_init key1 tabulate)
           (Some (init_params policy_init key1 False)),
       qvalue_state =
         create tx_init (init_params qvalue_init key2 tabulate)
           (Some (init_params qvalue_init key2 False))\<rparr>)"

definition train_state_sac_factory ::
  "('k \<Rightarrow> nat \<Rightarrow> nat \<Rightarrow> 'k) \<Rightarrow> ('k \<Rightarrow> (string \<times> real list) list)
     \<Rightarrow> ('k \<Rightarrow> (string \<times> real list) list) \<Rightarrow> ('k \<Rightarrow> (string \<times> real list) list)
     \<Rightarrow> (real list \<Rightarrow> 'opt) \<Rightarrow> 'k \<Rightarrow> bool \<Rightarrow> 'opt sac_train_state" where
  "train_state_sac_factory split policy_init qvalue_init alpha_init tx_init key tabulate =
     (let key1 = split key 3 0; key2 = split key 3 1; key3 = split key 3 2 in
      \<lparr>policy_state =
         create tx_init (init_params policy_init key1 tabulate)
           (Some (init_params policy_init key1 False)),
       qvalue_state =
         create tx_init (init_params qvalue_init key2 tabulate)
           (Some (init_params qvalue_init key2 False)),
       alpha_state =
         create tx_init (init_params alpha_init key3 tabulate) None\<rparr>)"

subsection \<open>Update steps\<close>

record td3_params =
  gamma :: real
  skip_steps :: int
  tau :: real
  action_noise :: real
  policy_update_frequency :: int
  target_noise_std :: real
  target_noise_clip :: real
  start_step :: int

text \<open>
  The loss functions, their gradients and the optimizer are outside the repository's
  concern here: a gradient step (\<^verbatim>\<open>jax.value_and_grad\<close> followed by
  \<^verbatim>\<open>apply_gradients\<close>) is a parameter that returns the new live parameters, the new
  optimizer state and the loss. \<^verbatim>\<open>apply_gradients\<close> leaves the target parameters alone.
\<close>

record ('opt, 'b) td3_losses =
  qvalue_grad_step :: "'opt train_state \<Rightarrow> 'b \<Rightarrow> real list \<times> 'opt \<times> real"
  policy_grad_step :: "'opt train_state \<Rightarrow> real list \<Rightarrow> 'b \<Rightarrow> real list \<times> 'opt \<times> real"

definition update_qvalue_fn ::
  "('opt train_state \<Rightarrow> 'b \<Rightarrow> real list \<times> 'opt \<times> real) \<Rightarrow> 'opt train_state \<Rightarrow> 'b
     \<Rightarrow> 'opt train_state \<times> real \<times> (string \<rightharpoonup> real)" where
  "update_qvalue_fn grad_step qstate batch =
     (case grad_step qstate batch of
        (ps, os, loss) \<Rightarrow>
          (qstate\<lparr>params := ps, opt_state := os\<rparr>, loss, [''loss_qvalue'' \<mapsto> loss]))"

text \<open>The two \<^verbatim>\<open>replace(target_params=optax.incremental_update(\<dots>))\<close> calls of \<^verbatim>\<open>update_policy_fn\<close>.\<close>

definition polyak_targets ::
  "real \<Rightarrow> 'opt train_state \<Rightarrow> 'opt train_state \<Rightarrow> exn + ('opt train_state \<times> 'opt train_state)" where
  "polyak_targets t pstate qstate =
     (case incremental_update (params pstate) (target_params pstate) t of
        Inl e \<Rightarrow> Inl e
      | Inr tp \<Rightarrow>
          (case incremental_update (params qstate) (target_params qstate) t of
             Inl e \<Rightarrow> Inl e
           | Inr tq \<Rightarrow>
               Inr (pstate\<lparr>target_params := Some tp\<rparr>, qstate\<lparr>target_params := Some tq\<rparr>)))"

definition td3_update_policy_fn ::
  "('opt, 'b) td3_losses \<Rightarrow> td3_params \<Rightarrow> 'opt train_state \<Rightarrow> 'opt train_state \<Rightarrow> 'b
     \<Rightarrow> exn + (('opt train_state \<times> 'opt train_state) \<times> real \<times> (string \<rightharpoonup> real))" where
  "td3_update_policy_fn L algo_params pstate qstate batch =
     (case policy_grad_step L pstate (params qstate) batch of
        (ps, os, loss) \<Rightarrow>
          (case polyak_targets (tau algo_params) (pstate\<lparr>params := ps, opt_state := os\<rparr>) qstate of
             Inl e \<Rightarrow> Inl e
           | Inr states \<Rightarrow> Inr (states, loss, [''loss_policy'' \<mapsto> loss])))"

text \<open>
  TD3's \<^verbatim>\<open>update_step_fn\<close>: the Q-value gradient step on every call; the policy gradient
  step and both target updates only when \<^verbatim>\<open>step % policy_update_frequency == 0\<close>. The
  remainder raises for frequency zero; for every other divisor Python's \<^verbatim>\<open>%\<close> is \<open>mod\<close> on
  \<open>int\<close>. The result is ordered as the source returns it: Q-value state, policy state, info.
\<close>

definition td3_update_step_fn ::
  "('opt, 'b) td3_losses \<Rightarrow> td3_params \<Rightarrow> 'opt train_state \<Rightarrow> 'opt train_state \<Rightarrow> 'b \<Rightarrow> int
     \<Rightarrow> exn + ('opt train_state \<times> 'opt train_state \<times> (string \<rightharpoonup> real))" where
  "td3_update_step_fn L algo_params pstate qstate batch step =
     (case update_qvalue_fn (qvalue_grad_step L) qstate batch of
        (qstate1, loss_qvalue, info_qvalue) \<Rightarrow>
          if policy_update_frequency algo_params = 0 then Inl ZeroDivisionError
          else if step mod policy_update_frequency algo_params = 0 then
            (case td3_update_policy_fn L algo_params pstate qstate1 batch of
               Inl e \<Rightarrow> Inl e
             | Inr ((pstate2, qstate2), loss_policy, info_policy) \<Rightarrow>
                 Inr (qstate2, pstate2,
                      (info_qvalue ++ info_policy)(''total_loss'' \<mapsto> loss_qvalue + loss_policy)))
          else
            Inr (qstate1, pstate,
                 (info_qvalue ++ Map.empty)(''total_loss'' \<mapsto> loss_qvalue + 0)))"

record ('opt, 'b, 'k) sac_losses =
  sac_qvalue_grad_step :: "'opt train_state \<Rightarrow> 'b \<Rightarrow> real list \<times> 'opt \<times> real"
  sac_policy_grad_step ::
    "'opt train_state \<Rightarrow> real list \<Rightarrow> real list \<Rightarrow> 'b \<Rightarrow> real list \<times> 'opt \<times> real \<times> real"
  sac_alpha_grad_step ::
    "'k \<Rightarrow> real list \<Rightarrow> 'opt train_state \<Rightarrow> 'b \<Rightarrow> real list \<times> 'opt \<times> real \<times> real"

definition sac_update_policy_fn ::
  "('opt, 'b, 'k) sac_losses \<Rightarrow> real \<Rightarrow> 'opt train_state \<Rightarrow> 'opt train_state \<Rightarrow> 'opt train_state
     \<Rightarrow> 'b \<Rightarrow> exn + (('opt train_state \<times> 'opt train_state) \<times> real \<times> (string \<rightharpoonup> real))" where
  "sac_update_policy_fn L t pstate qstate astate batch =
     (case sac_policy_grad_step L pstate (params qstate) (params astate) batch of
        (ps, os, loss, entropy) \<Rightarrow>
          (case polyak_targets t (pstate\<lparr>params := ps, opt_state := os\<rparr>) qstate of
             Inl e \<Rightarrow> Inl e
           | Inr states \<Rightarrow>
               Inr (states, loss, [''loss_policy'' \<mapsto> loss, ''entropy'' \<mapsto> entropy])))"

definition update_alpha_fn ::
  "('opt, 'b, 'k) sac_losses \<Rightarrow> 'k \<Rightarrow> 'opt train_state \<Rightarrow> 'opt train_state \<Rightarrow> 'b
     \<Rightarrow> 'opt train_state \<times> real \<times> (string \<rightharpoonup> real)" where
  "update_alpha_fn L key pstate astate batch =
     (case sac_alpha_grad_step L key (params pstate) astate batch of
        (ps, os, loss, alpha) \<Rightarrow>
          (astate\<lparr>params := ps, opt_state := os\<rparr>, loss,
           [''loss_alpha'' \<mapsto> loss, ''alpha'' \<mapsto> alpha]))"

text \<open>SAC's \<^verbatim>\<open>update_step_fn\<close>, with \<open>t\<close> for \<^verbatim>\<open>config.algo_params.tau\<close>.\<close>

definition sac_update_step_fn ::
  "('opt, 'b, 'k) sac_losses \<Rightarrow> real \<Rightarrow> 'opt sac_train_state \<Rightarrow> 'k \<Rightarrow> 'b
     \<Rightarrow> exn + ('opt sac_train_state \<times> (string \<rightharpoonup> real))" where
  "sac_update_step_fn L t state0 key batch =
     (case update_qvalue_fn (sac_qvalue_grad_step L) (qvalue_state state0) batch of
        (qstate1, loss_qvalue, info_qvalue) \<Rightarrow>
          (case sac_update_policy_fn L t (policy_state state0) qstate1 (alpha_state state0) batch of
             Inl e \<Rightarrow> Inl e
           | Inr ((pstate2, qstate2), loss_policy, info_policy) \<Rightarrow>
               (case update_alpha_fn L key pstate2 (alpha_state state0) batch of
                  (astate3, loss_alpha, info_alpha) \<Rightarrow>
                    Inr (state0\<lparr>policy_state := pstate2, qvalue_state := qstate2,
                                alpha_state := astate3\<rparr>,
                         (info_qvalue ++ info_policy ++ info_alpha)
                           (''total_loss'' \<mapsto> loss_qvalue + loss_policy + loss_alpha)))))"

text \<open>
  The statement that a target is the smoothing of the old target toward the live
  parameters: leaf \<open>i\<close> of the new target is \<open>t * live ! i + (1 - t) * old ! i\<close>.
\<close>

definition polyak_of :: "real \<Rightarrow> real list \<Rightarrow> real list option \<Rightarrow> real list option \<Rightarrow> bool" where
  "polyak_of t live old_target new_target =
     (case old_target of
        None \<Rightarrow> False
      | Some old_leaves \<Rightarrow>
          length live = length old_leaves \<and>
          new_target =
            Some (map (\<lambda>i. t * live ! i + (1 - t) * old_leaves ! i) [0..<length old_leaves]))"

subsection \<open>Resuming from a checkpoint\<close>

text \<open>
  \<^verbatim>\<open>Saver.restore_latest_step\<close> asks the checkpoint manager for its latest step and
  restores it. On the list of pairs handed to the manager, the latest step is the
  greatest one saved, and it restores the checkpoint saved under it.
\<close>

definition latest_step :: "'s saver \<Rightarrow> int option" where
  "latest_step sv = (if sv = [] then None else Some (Max (set (map fst sv))))"

definition restore_latest_step :: "'s saver \<Rightarrow> 's \<Rightarrow> exn + (int \<times> 's)" where
  "restore_latest_step sv base_state_dict =
     (case latest_step sv of
        None \<Rightarrow> Inl ValueError
      | Some step \<Rightarrow>
          (case map_of sv step of None \<Rightarrow> Inl ValueError | Some ckpt \<Rightarrow> Inr (step, ckpt)))"

record ('opt, 'k) td3 =
  td3_state :: "'opt td3_train_state"
  td3_key :: 'k
  td3_step :: int
  td3_algo_params :: td3_params
  td3_saver :: "'opt td3_train_state saver"

text \<open>
  \<^verbatim>\<open>TD3.resume\<close> up to its call of the training loop:
  \<^verbatim>\<open>step, self.state = self.saver.restore_latest_step(self.state)\<close>.
\<close>

definition td3_resume :: "('opt, 'k) td3 \<Rightarrow> exn + (int \<times> ('opt, 'k) td3)" where
  "td3_resume self =
     (case restore_latest_step (td3_saver self) (td3_state self) of
        Inl e \<Rightarrow> Inl e
      | Inr (step, st) \<Rightarrow> Inr (step, self\<lparr>td3_state := st\<rparr>))"

section \<open>Action selection (\<^verbatim>\<open>rl/algos/dqn.py\<close>, \<^verbatim>\<open>rl/algos/td3.py\<close>, \<^verbatim>\<open>rl_tools/algos/named/sac.py\<close>)\<close>

text \<open>
  The functions are modelled on one observation of a single-agent environment
  (\<^verbatim>\<open>self.parallel\<close> false); on a batch, \<^verbatim>\<open>argmax(axis=-1)\<close>, \<^verbatim>\<open>where\<close>, \<^verbatim>\<open>clip\<close> and the
  samplers act on every element alike. The network, the samplers of \<^verbatim>\<open>jax.random\<close> and
  the agent's \<^verbatim>\<open>nextkey\<close> are parameters; \<^verbatim>\<open>nextkey\<close> returns the agent's new key and the
  key it hands out.
\<close>

definition clip :: "real \<Rightarrow> real \<Rightarrow> real \<Rightarrow> real" where
  "clip x lo hi = min (max x lo) hi"

fun maximum :: "real list \<Rightarrow> real" where
  "maximum [] = 0"
| "maximum [x] = x"
| "maximum (x # y # ys) = max x (maximum (y # ys))"

text \<open>\<^verbatim>\<open>jnp.argmax\<close>: the first index of a greatest element; an empty array is an error.\<close>

definition argmax :: "real list \<Rightarrow> exn + nat" where
  "argmax xs =
     (if xs = [] then Inl ValueError
      else Inr (length (takeWhile (\<lambda>x. x \<noteq> maximum xs) xs)))"

record ('p, 'o, 'k) dqn_fns =
  dqn_apply_fn :: "'p \<Rightarrow> 'o \<Rightarrow> real list"
  dqn_split :: "'k \<Rightarrow> nat \<Rightarrow> nat \<Rightarrow> 'k"
  dqn_uniform :: "'k \<Rightarrow> real"
  dqn_randint :: "'k \<Rightarrow> nat \<Rightarrow> nat \<Rightarrow> nat"
  dqn_nextkey :: "'k \<Rightarrow> 'k \<times> 'k"

definition NO_EXPLORATION :: real where
  "NO_EXPLORATION = 0"

definition dqn_explore_fn ::
  "('p, 'o, 'k) dqn_fns \<Rightarrow> 'p \<Rightarrow> 'k \<Rightarrow> 'o \<Rightarrow> real \<Rightarrow> exn + (nat \<times> nat)" where
  "dqn_explore_fn F ps key observations exploration =
     (let all_qvalues = dqn_apply_fn F ps observations in
      case argmax all_qvalues of
        Inl e \<Rightarrow> Inl e
      | Inr greedy_action \<Rightarrow>
          (let key1 = dqn_split F key 2 0;
               key2 = dqn_split F key 2 1;
               eps = dqn_uniform F key1;
               random_action = dqn_randint F key2 0 (length all_qvalues);
               actions = (if eps \<le> exploration then random_action else greedy_action)
           in Inr (actions, 0)))"

record ('p, 'k) dqn =
  dqn_state_params :: 'p
  dqn_key :: 'k
  dqn_exploration :: real

definition dqn_select_action ::
  "('p, 'o, 'k) dqn_fns \<Rightarrow> ('p, 'k) dqn \<Rightarrow> 'o \<Rightarrow> (exn + (nat \<times> nat)) \<times> ('p, 'k) dqn" where
  "dqn_select_action F self observation =
     (case dqn_nextkey F (dqn_key self) of
        (key', keys) \<Rightarrow>
          (dqn_explore_fn F (dqn_state_params self) keys observation NO_EXPLORATION,
           self\<lparr>dqn_key := key'\<rparr>))"

definition dqn_explore ::
  "('p, 'o, 'k) dqn_fns \<Rightarrow> ('p, 'k) dqn \<Rightarrow> 'o \<Rightarrow> (exn + (nat \<times> nat)) \<times> ('p, 'k) dqn" where
  "dqn_explore F self observation =
     (case dqn_nextkey F (dqn_key self) of
        (key', keys) \<Rightarrow>
          (dqn_explore_fn F (dqn_state_params self) keys observation (dqn_exploration self),
           self\<lparr>dqn_key := key'\<rparr>))"

text \<open>
  TD3: \<open>td3_sample ps obs noise key\<close> stands for
  \<^verbatim>\<open>policy_apply({"params": ps}, obs, noise).sample_and_log_prob(seed=key)\<close>, and
  \<open>td3_uniform key n lo hi\<close> for \<^verbatim>\<open>jax.random.uniform(key, (n,), minval=lo, maxval=hi)\<close>.
\<close>

record ('o, 'k) td3_fns =
  td3_sample :: "real list \<Rightarrow> 'o \<Rightarrow> real \<Rightarrow> 'k \<Rightarrow> real list \<times> real list"
  td3_uniform :: "'k \<Rightarrow> nat \<Rightarrow> real \<Rightarrow> real \<Rightarrow> real list"
  td3_nextkey :: "'k \<Rightarrow> 'k \<times> 'k"

definition td3_explore_fn ::
  "('o, 'k) td3_fns \<Rightarrow> 'opt train_state \<Rightarrow> 'k \<Rightarrow> 'o \<Rightarrow> real \<Rightarrow> real list \<times> real list" where
  "td3_explore_fn F pstate key observations noise =
     (case td3_sample F (params pstate) observations noise key of
        (actions, log_probs) \<Rightarrow> (map (\<lambda>a. clip a (- 1) 1) actions, log_probs))"

definition td3_select_action ::
  "('o, 'k) td3_fns \<Rightarrow> ('opt, 'k) td3 \<Rightarrow> 'o \<Rightarrow> (real list \<times> real list) \<times> ('opt, 'k) td3" where
  "td3_select_action F self observation =
     (case td3_nextkey F (td3_key self) of
        (key', keys) \<Rightarrow>
          (td3_explore_fn F (policy_state (td3_state self)) keys observation 0,
           self\<lparr>td3_key := key'\<rparr>))"

definition td3_explore ::
  "('o, 'k) td3_fns \<Rightarrow> ('opt, 'k) td3 \<Rightarrow> 'o \<Rightarrow> (real list \<times> real list) \<times> ('opt, 'k) td3" where
  "td3_explore F self observation =
     (case td3_nextkey F (td3_key self) of
        (key', keys) \<Rightarrow>
          (case td3_explore_fn F (policy_state (td3_state self)) keys observation
                  (action_noise (td3_algo_params self)) of
             (action, log_prob) \<Rightarrow>
               if td3_step self < start_step (td3_algo_params self) then
                 (case td3_nextkey F key' of
                    (key'', k) \<Rightarrow>
                      ((td3_uniform F k (length action) (- 1) 1, replicate (length action) 0),
                       self\<lparr>td3_key := key''\<rparr>))
               else ((action, log_prob), self\<lparr>td3_key := key'\<rparr>)))"

text \<open>
  SAC: \<open>sac_sample ps obs key\<close> stands for
  \<^verbatim>\<open>policy_state.apply_fn(ps, obs).sample_and_log_prob(seed=key)\<close>; \<^verbatim>\<open>interact_keys\<close> of the
  base class hands out the key for one interaction.
\<close>

record ('o, 'k) sac_fns =
  sac_sample :: "real list \<Rightarrow> 'o \<Rightarrow> 'k \<Rightarrow> real list \<times> real list"
  sac_uniform :: "'k \<Rightarrow> nat \<Rightarrow> real \<Rightarrow> real \<Rightarrow> real list"
  sac_interact_keys :: "'k \<Rightarrow> 'k \<times> 'k"
  sac_nextkey :: "'k \<Rightarrow> 'k \<times> 'k"

record ('opt, 'k) sac =
  sac_state :: "'opt sac_train_state"
  sac_key :: 'k
  sac_step :: int
  sac_start_step :: int

definition sac_explore_fn ::
  "('o, 'k) sac_fns \<Rightarrow> 'opt train_state \<Rightarrow> 'k \<Rightarrow> 'o \<Rightarrow> real list \<times> real list" where
  "sac_explore_fn F pstate key observations =
     (case sac_sample F (params pstate) observations key of
        (actions, log_probs) \<Rightarrow> (map (\<lambda>a. clip a (- 1) 1) actions, log_probs))"

definition sac_explore ::
  "('o, 'k) sac_fns \<Rightarrow> ('opt, 'k) sac \<Rightarrow> 'o \<Rightarrow> (real list \<times> real list) \<times> ('opt, 'k) sac" where
  "sac_explore F self observation =
     (case sac_interact_keys F (sac_key self) of
        (key', keys) \<Rightarrow>
          (case sac_explore_fn F (policy_state (sac_state self)) keys observation of
             (action, log_prob) \<Rightarrow>
               if sac_step self < sac_start_step self then
                 (case sac_nextkey F key' of
                    (key'', k) \<Rightarrow>
                      ((sac_uniform F k (length action) (- 1) 1, replicate (length action) 0),
                       self\<lparr>sac_key := key''\<rparr>))
               else ((action, log_prob), self\<lparr>sac_key := key'\<rparr>)))"

definition sac_select_action ::
  "('o, 'k) sac_fns \<Rightarrow> ('opt, 'k) sac \<Rightarrow> 'o \<Rightarrow> (real list \<times> real list) \<times> ('opt, 'k) sac" where
  "sac_select_action F self observation = sac_explore F self observation"

section \<open>Concrete instances\<close>

text \<open>
  Small instances of the parameters, on which the statements below are evaluated: a
  splitter that numbers the keys of a tree (the \<open>i\<close>-th of \<open>num\<close> children of key \<open>k\<close> is
  \<open>k * num + i + 1\<close>), two update modules, a counter environment that ends its episode at
  count three, and gradient steps that shift every leaf by a constant.
\<close>

definition tree_split :: "nat \<Rightarrow> nat \<Rightarrow> nat \<Rightarrow> nat" where
  "tree_split key num i = key * num + i + 1"

definition adding_module :: "nat \<Rightarrow> (nat, nat, nat, nat) update_module" where
  "adding_module s0 = \<lparr>update_fn = (\<lambda>s k b. Inr (s + k + b, [''loss'' \<mapsto> s])), state = s0\<rparr>"

definition failing_module :: "nat \<Rightarrow> (nat, nat, nat, nat) update_module" where
  "failing_module s0 = \<lparr>update_fn = (\<lambda>s k b. Inl (UpdateError ''boom'')), state = s0\<rparr>"

definition counter_env :: "(nat, unit, nat, nat, unit) parallel_env" where
  "counter_env =
     \<lparr>env_step = (\<lambda>e a. (e + 1, (e + 1, 1, [(''a'', 3 \<le> e + 1)], [(''a'', False)],
                                 [(''count'', PInt (int (e + 1)))]))),
      env_reset = (\<lambda>e. (0, (0, [(''fresh'', PBool True)]))),
      env_close = (\<lambda>e. e),
      env_agents = (\<lambda>e. [''a'']),
      env_num_agents = (\<lambda>e. 1),
      env_observation_space = (\<lambda>e a. ()),
      env_action_space = (\<lambda>e a. ())\<rparr>"

definition shift_td3_losses :: "(unit, unit) td3_losses" where
  "shift_td3_losses =
     \<lparr>qvalue_grad_step = (\<lambda>q b. (map (\<lambda>x. x + 1) (params q), opt_state q, 3)),
      policy_grad_step = (\<lambda>p qp b. (map (\<lambda>x. x + 2) (params p), opt_state p, 4))\<rparr>"

definition shift_sac_losses :: "(unit, unit, nat) sac_losses" where
  "shift_sac_losses =
     \<lparr>sac_qvalue_grad_step = (\<lambda>q b. (map (\<lambda>x. x + 1) (params q), opt_state q, 3)),
      sac_policy_grad_step = (\<lambda>p qp ap b. (map (\<lambda>x. x + 2) (params p), opt_state p, 4, 0)),
      sac_alpha_grad_step = (\<lambda>k pp a b. (map (\<lambda>x. x + 3) (params a), opt_state a, 5, 1))\<rparr>"

definition half_tau_params :: td3_params where
  "half_tau_params =
     \<lparr>gamma = 1, skip_steps = 1, tau = 1 / 2, action_noise = 1 / 10, policy_update_frequency = 2,
      target_noise_std = 0, target_noise_clip = 0, start_step = 5\<rparr>"

definition zero_state :: "unit train_state" where
  "zero_state = \<lparr>params = [0], target_params = Some [0], opt_state = ()\<rparr>"

definition zero_sac_state :: "unit sac_train_state" where
  "zero_sac_state =
     \<lparr>policy_state = zero_state, qvalue_state = zero_state,
      alpha_state = \<lparr>params = [0], target_params = None, opt_state = ()\<rparr>\<rparr>"

definition saved_state :: "unit td3_train_state" where
  "saved_state =
     \<lparr>policy_state = \<lparr>params = [3], target_params = Some [5], opt_state = ()\<rparr>,
      qvalue_state = \<lparr>params = [3], target_params = Some [5], opt_state = ()\<rparr>\<rparr>"

definition resuming_td3 :: "(unit, nat) td3" where
  "resuming_td3 =
     \<lparr>td3_state = \<lparr>policy_state = zero_state, qvalue_state = zero_state\<rparr>,
      td3_key = 0, td3_step = 0, td3_algo_params = half_tau_params,
      td3_saver = [(10, saved_state)]\<rparr>"

definition table_dqn_fns :: "(real list, unit, nat) dqn_fns" where
  "table_dqn_fns =
     \<lparr>dqn_apply_fn = (\<lambda>ps obs. ps),
      dqn_split = tree_split,
      dqn_uniform = (\<lambda>k. 1 / 2),
      dqn_randint = (\<lambda>k lo hi. lo),
      dqn_nextkey = (\<lambda>k. (tree_split k 2 0, tree_split k 2 1))\<rparr>"

definition table_dqn :: "(real list, nat) dqn" where
  "table_dqn = \<lparr>dqn_state_params = [1, 7, 2], dqn_key = 0, dqn_exploration = 3 / 4\<rparr>"

definition noisy_td3_fns :: "(unit, nat) td3_fns" where
  "noisy_td3_fns =
     \<lparr>td3_sample = (\<lambda>ps obs noise k. (map (\<lambda>p. p + noise * 2) ps, map (\<lambda>p. 0) ps)),
      td3_uniform = (\<lambda>k n lo hi. replicate n lo),
      td3_nextkey = (\<lambda>k. (tree_split k 2 0, tree_split k 2 1))\<rparr>"

definition trained_td3 :: "(unit, nat) td3" where
  "trained_td3 = resuming_td3\<lparr>td3_step := 9\<rparr>"

definition noisy_sac_fns :: "(unit, nat) sac_fns" where
  "noisy_sac_fns =
     \<lparr>sac_sample = (\<lambda>ps obs k. (map (\<lambda>p. p + 1 / 2) ps, map (\<lambda>p. 0) ps)),
      sac_uniform = (\<lambda>k n lo hi. replicate n (- 3 / 10)),
      sac_interact_keys = (\<lambda>k. (tree_split k 2 0, tree_split k 2 1)),
      sac_nextkey = (\<lambda>k. (tree_split k 2 0, tree_split k 2 1))\<rparr>"

definition warming_sac :: "(unit, nat) sac" where
  "warming_sac = \<lparr>sac_state = zero_sac_state, sac_key = 0, sac_step = 0, sac_start_step = 5\<rparr>"

definition const_init :: "nat \<Rightarrow> (string \<times> real list) list" where
  "const_init k = [(''params'', [real k, 1])]"

definition exact_cast :: "dtype \<Rightarrow> 'o info_value \<Rightarrow> exn + 'o info_value" where
  "exact_cast d v =
     (case d of
        Dint \<Rightarrow> (case v of PInt i \<Rightarrow> Inr (PInt i) | PBool b \<Rightarrow> Inr (PInt (if b then 1 else 0))
                  | _ \<Rightarrow> Inl ValueError)
      | Dbool \<Rightarrow> (case v of PInt i \<Rightarrow> Inr (PBool (i \<noteq> 0)) | _ \<Rightarrow> Inl ValueError)
      | Dobject \<Rightarrow> Inr v)"

definition two_workers :: "nat sub_proc_vec_env" where
  "two_workers =
     \<lparr>waiting = True, closed = False,
      parent_conns = [[(''step'', Some [(''a'', 0)])], [(''step'', Some [(''a'', 0)])]],
      agents = [''a''], num_envs = 2\<rparr>"

definition two_replies :: "nat \<Rightarrow> (nat, nat) pool_reply" where
  "two_replies i =
     (if i = 0
      then (([(''a'', 1)], [(''a'', 1)], [(''a'', False)], [(''a'', False)], [(''x'', PInt 5)]), True)
      else (([(''a'', 2)], [(''a'', 1)], [(''a'', False)], [(''a'', False)], [(''y'', PStr ''hi'')]), True))"

definition one_worker :: "nat sub_proc_vec_env" where
  "one_worker =
     \<lparr>waiting = True, closed = False, parent_conns = [[(''step'', Some [(''a'', 0)])]],
      agents = [''a''], num_envs = 1\<rparr>"

definition underscore_reply :: "nat \<Rightarrow> (nat, nat) pool_reply" where
  "underscore_reply i =
     (([(''a'', 1)], [(''a'', 1)], [(''a'', False)], [(''a'', False)],
       [(''x'', PInt 1), (''_x'', PInt 2)]), True)"






section \<open>Properties of the saver context\<close>

lemma update_records:
  "cur_step (fst (update c step st)) = step \<and>
   cur_state (fst (update c step st)) = Some st \<and>
   save_frequency (fst (update c step st)) = save_frequency c"
  by (simp add: update_def Let_def)

lemma updates_nonzero:
  "save_frequency c \<noteq> 0 \<Longrightarrow> us \<noteq> [] \<Longrightarrow>
   snd (updates c us) = None \<and>
   cur_step (fst (updates c us)) = fst (last us) \<and>
   cur_state (fst (updates c us)) = Some (snd (last us)) \<and>
   save_frequency (fst (updates c us)) = save_frequency c"
proof (induction us arbitrary: c)
  case Nil
  then show ?case by simp
next
  case (Cons u us)
  obtain step st where u: "u = (step, st)" by (cases u)
  have "snd (update c step st) = None"
    using Cons.prems(1) by (simp add: update_def Let_def)
  then obtain c' where c': "update c step st = (c', None)"
    by (cases "update c step st") simp
  have f': "save_frequency c' = save_frequency c"
    using update_records [of c step st] c' by simp
  show ?case
  proof (cases "us = []")
    case True
    then show ?thesis
      using update_records [of c step st] c' u by simp
  next
    case False
    then show ?thesis
      using Cons.IH [of c'] Cons.prems(1) f' c' u by simp
  qed
qed

text \<open>
  C10 (amended). For a positive save frequency \<open>f\<close>, \<^verbatim>\<open>update(step, state)\<close> persists the
  pair exactly when \<open>step mod f = 0\<close>; for a negative frequency it persists nothing; in both
  cases it raises nothing. Leaving the context persists the most recently recorded pair
  whenever an update was recorded, whatever the frequency's sign and the step, and
  persists nothing when no update was recorded.
\<close>

theorem saver_context_persists:
  fixes c :: "'s saver_context"
  shows "(0 < save_frequency c \<longrightarrow>
            update c step st =
              (c\<lparr>cur_step := step, cur_state := Some st,
                 saver := saver c @ (if step mod save_frequency c = 0 then [(step, st)] else [])\<rparr>,
               None)) \<and>
         (save_frequency c < 0 \<longrightarrow>
            update c step st = (c\<lparr>cur_step := step, cur_state := Some st\<rparr>, None)) \<and>
         (f \<noteq> 0 \<longrightarrow> us \<noteq> [] \<longrightarrow>
            saver (exit_context (fst (updates (saver_context_init sv f) us))) =
              saver (fst (updates (saver_context_init sv f) us)) @ [last us]) \<and>
         saver (exit_context (saver_context_init sv f)) = sv"
proof (intro conjI impI)
  assume "0 < save_frequency c"
  then show "update c step st =
      (c\<lparr>cur_step := step, cur_state := Some st,
         saver := saver c @ (if step mod save_frequency c = 0 then [(step, st)] else [])\<rparr>,
       None)"
    by (simp add: update_def Let_def save_def)
next
  assume "save_frequency c < 0"
  then show "update c step st = (c\<lparr>cur_step := step, cur_state := Some st\<rparr>, None)"
    by (simp add: update_def Let_def)
next
  assume f: "f \<noteq> 0" and us: "us \<noteq> []"
  have "save_frequency (saver_context_init sv f) \<noteq> 0"
    using f by (simp add: saver_context_init_def)
  from updates_nonzero [OF this us]
  show "saver (exit_context (fst (updates (saver_context_init sv f) us))) =
          saver (fst (updates (saver_context_init sv f) us)) @ [last us]"
    by (simp add: exit_context_def save_def)
next
  show "saver (exit_context (saver_context_init sv f)) = sv"
    by (simp add: exit_context_def saver_context_init_def)
qed

theorem saver_context_persists_witness:
  "update (saver_context_init [] 5) 10 (7::nat) =
     (\<lparr>saver = [(10, 7)], save_frequency = 5, cur_step = 10, cur_state = Some 7\<rparr>, None) \<and>
   update (saver_context_init [] (- 1)) 10 (7::nat) =
     (\<lparr>saver = [], save_frequency = - 1, cur_step = 10, cur_state = Some 7\<rparr>, None) \<and>
   saver (exit_context (fst (updates (saver_context_init [] (- 1)) [(3, 7::nat), (4, 8)]))) =
     [(4, 8)]"
  using saver_context_persists [of "saver_context_init [] 5" 10 "7::nat" 5 "[(3, 7::nat), (4, 8)]" "[]"]
        saver_context_persists [of "saver_context_init [] (- 1)" 10 "7::nat" "- 1" "[(3, 7::nat), (4, 8)]" "[]"]
  by (simp add: saver_context_init_def update_def Let_def)

text \<open>
  C10 as stated fails at frequency zero: zero is non-negative and step \<open>0\<close> is a multiple
  of it, yet \<^verbatim>\<open>update\<close> raises \<^verbatim>\<open>ZeroDivisionError\<close> and persists nothing.
\<close>

theorem saver_context_zero_frequency_counterexample:
  "(0::int) \<le> 0 \<and> (0::int) dvd 0 \<and>
   update (saver_context_init [] 0) 0 (7::nat) =
     (\<lparr>saver = [], save_frequency = 0, cur_step = 0, cur_state = Some 7\<rparr>,
      Some ZeroDivisionError)"
  by (simp add: saver_context_init_def update_def Let_def)

section \<open>Properties of the update pipeline\<close>

lemma replaced_0: "replaced ms sts 0 = ms"
  by (simp add: replaced_def map_nth)

lemma length_replaced: "length (replaced ms sts i) = length ms"
  by (simp add: replaced_def)

lemma replaced_Suc:
  "i < length ms \<Longrightarrow> (replaced ms sts i)[i := (ms ! i)\<lparr>state := sts i\<rparr>] = replaced ms sts (Suc i)"
  by (rule nth_equalityI) (auto simp: replaced_def nth_list_update less_Suc_eq)

lemma replaced_nth: "i < length ms \<Longrightarrow> replaced ms sts i ! i = ms ! i"
  by (simp add: replaced_def)

lemma carried_key_Suc: "split (carried_key split key i) 2 0 = carried_key split key (Suc i)"
  by (simp add: carried_key_def)

lemma merged_Suc: "merged infs (Suc i) = merged infs i ++ infs i"
  by (simp add: merged_def)

text \<open>While the stages succeed, the loop at index \<open>i\<close> continues as the loop at any later index.\<close>

lemma update_loop_prefix:
  assumes "m \<le> length ms"
    and "\<forall>j<m. update_fn (ms ! j) (state (ms ! j)) (sub_seed split key j) batch = Inr (sts j, infs j)"
    and "i \<le> m"
  shows "update_loop split batch i (replaced ms sts i) (carried_key split key i) (merged infs i) =
         update_loop split batch m (replaced ms sts m) (carried_key split key m) (merged infs m)"
  using assms(3)
proof (induction "m - i" arbitrary: i)
  case 0
  then show ?case by simp
next
  case (Suc d)
  then have i: "i < m" "i < length ms" using assms(1) by auto
  have ok: "update_fn (ms ! i) (state (ms ! i)) (split (carried_key split key i) 2 1) batch =
              Inr (sts i, infs i)"
    using assms(2) i by (simp add: sub_seed_def)
  have "update_loop split batch i (replaced ms sts i) (carried_key split key i) (merged infs i) =
        update_loop split batch (Suc i) (replaced ms sts (Suc i)) (carried_key split key (Suc i))
          (merged infs (Suc i))"
    using i ok
    by (subst update_loop.simps)
       (simp add: length_replaced replaced_nth replaced_Suc carried_key_Suc merged_Suc)
  also have "\<dots> = update_loop split batch m (replaced ms sts m) (carried_key split key m) (merged infs m)"
    using Suc i by (intro Suc.hyps(1)) auto
  finally show ?case .
qed

lemma update_loop_all:
  assumes "\<forall>j<length ms. update_fn (ms ! j) (state (ms ! j)) (sub_seed split key j) batch = Inr (sts j, infs j)"
  shows "update_loop split batch 0 ms key Map.empty =
           (replaced ms sts (length ms), Inr (merged infs (length ms)))"
proof -
  have "update_loop split batch 0 (replaced ms sts 0) (carried_key split key 0) (merged infs 0) =
        update_loop split batch (length ms) (replaced ms sts (length ms))
          (carried_key split key (length ms)) (merged infs (length ms))"
    using assms by (intro update_loop_prefix) auto
  also have "\<dots> = (replaced ms sts (length ms), Inr (merged infs (length ms)))"
    by (subst update_loop.simps) (simp add: length_replaced)
  finally show ?thesis
    by (simp add: replaced_0 carried_key_def merged_def)
qed

lemma update_loop_fails:
  assumes "i < length ms"
    and "\<forall>j<i. update_fn (ms ! j) (state (ms ! j)) (sub_seed split key j) batch = Inr (sts j, infs j)"
    and "update_fn (ms ! i) (state (ms ! i)) (sub_seed split key i) batch = Inl e"
  shows "update_loop split batch 0 ms key Map.empty = (replaced ms sts i, Inl e)"
proof -
  have "update_loop split batch 0 (replaced ms sts 0) (carried_key split key 0) (merged infs 0) =
        update_loop split batch i (replaced ms sts i) (carried_key split key i) (merged infs i)"
    using assms by (intro update_loop_prefix) auto
  also have "\<dots> = (replaced ms sts i, Inl e)"
    using assms(1,3)
    by (subst update_loop.simps) (simp add: length_replaced replaced_nth sub_seed_def)
  finally show ?thesis
    by (simp add: replaced_0 carried_key_def merged_def)
qed

lemma merged_later_wins:
  "j < n \<Longrightarrow> infs j k = Some v \<Longrightarrow> \<forall>j'. j < j' \<and> j' < n \<longrightarrow> infs j' k = None \<Longrightarrow>
   merged infs n k = Some v"
proof (induction n)
  case 0
  then show ?case by simp
next
  case (Suc n)
  show ?case
  proof (cases "j = n")
    case True
    then show ?thesis using Suc.prems by (simp add: merged_Suc map_add_def)
  next
    case False
    then have "j < n" using Suc.prems by simp
    moreover have "infs n k = None" using Suc.prems \<open>j < n\<close> by simp
    ultimately show ?thesis using Suc by (simp add: merged_Suc map_add_def)
  qed
qed

lemma merged_absent: "\<forall>j<n. infs j k = None \<Longrightarrow> merged infs n k = None"
  by (induction n) (simp_all add: merged_Suc map_add_def merged_def)

text \<open>
  C7. \<^verbatim>\<open>update_pipeline\<close> runs the update functions in list order. Stage \<open>j\<close> receives its
  own module's state, the shared batch and the sub-seed \<open>sub_seed split key j\<close>, the second
  half of the \<open>j\<close>-th split along the chain of first halves that starts at the input seed.
  When every stage returns, the result is the list with every module's state replaced by
  the state its stage returned, together with one dictionary, the merge of the stages'
  diagnostics in stage order: a key reported by stage \<open>j\<close> and by no later stage has stage
  \<open>j\<close>'s value, and a key no stage reports is absent.
\<close>

theorem update_pipeline_sequential:
  assumes "\<forall>j<length ms. update_fn (ms ! j) (state (ms ! j)) (sub_seed split key j) batch = Inr (sts j, infs j)"
  shows "update_pipeline split ms key batch =
           (map (\<lambda>j. (ms ! j)\<lparr>state := sts j\<rparr>) [0..<length ms],
            Inr (map (\<lambda>j. (ms ! j)\<lparr>state := sts j\<rparr>) [0..<length ms],
                 foldl (++) Map.empty (map infs [0..<length ms]))) \<and>
         (\<forall>j k v. j < length ms \<and> infs j k = Some v \<and> (\<forall>j'. j < j' \<and> j' < length ms \<longrightarrow> infs j' k = None)
            \<longrightarrow> foldl (++) Map.empty (map infs [0..<length ms]) k = Some v) \<and>
         (\<forall>k. (\<forall>j<length ms. infs j k = None)
            \<longrightarrow> foldl (++) Map.empty (map infs [0..<length ms]) k = None)"
proof -
  have all: "replaced ms sts (length ms) = map (\<lambda>j. (ms ! j)\<lparr>state := sts j\<rparr>) [0..<length ms]"
    by (simp add: replaced_def)
  have "update_pipeline split ms key batch =
          (replaced ms sts (length ms),
           Inr (replaced ms sts (length ms), merged infs (length ms)))"
    using update_loop_all [OF assms] by (simp add: update_pipeline_def)
  then show ?thesis
    using merged_later_wins [of _ "length ms" infs] merged_absent [of "length ms" infs]
    unfolding all merged_def by blast
qed

theorem update_pipeline_sequential_witness:
  "(case update_pipeline tree_split [adding_module 1, adding_module 2] 0 10 of
      (caller_list, Inr (ms, info)) \<Rightarrow>
        map state caller_list = [13, 16] \<and> map state ms = [13, 16] \<and> info ''loss'' = Some 2
    | (caller_list, Inl e) \<Rightarrow> False)"
  using update_pipeline_sequential
          [of "[adding_module 1, adding_module 2]" tree_split 0 10
              "\<lambda>j. [13, 16] ! j" "\<lambda>j. [[''loss'' \<mapsto> 1], [''loss'' \<mapsto> 2]] ! j"]
  by (simp add: adding_module_def tree_split_def sub_seed_def carried_key_def All_less_Suc)

text \<open>
  C4 (amended). \<^verbatim>\<open>update_pipeline\<close> never changes a module value: a stage that returns
  yields a new module, which is stored into the stage's slot of the caller's list. When
  stage \<open>i\<close> is the first whose update function fails, the exception leaves the caller's
  list with the new modules in the slots before \<open>i\<close> and the original modules in slot \<open>i\<close>
  and after it.
\<close>

theorem update_pipeline_failure_slots:
  assumes "i < length ms"
    and "\<forall>j<i. update_fn (ms ! j) (state (ms ! j)) (sub_seed split key j) batch = Inr (sts j, infs j)"
    and "update_fn (ms ! i) (state (ms ! i)) (sub_seed split key i) batch = Inl e"
  shows "update_pipeline split ms key batch =
           (map (\<lambda>j. if j < i then (ms ! j)\<lparr>state := sts j\<rparr> else ms ! j) [0..<length ms], Inl e)"
  using update_loop_fails [OF assms] by (simp add: update_pipeline_def replaced_def)

theorem update_pipeline_failure_slots_witness:
  "update_pipeline tree_split [adding_module 1, failing_module 2] 0 10 =
     ([(adding_module 1)\<lparr>state := 13\<rparr>, failing_module 2], Inl (UpdateError ''boom''))"
  using update_pipeline_failure_slots
          [of 1 "[adding_module 1, failing_module 2]" tree_split 0 10
              "\<lambda>j. 13" "\<lambda>j. [''loss'' \<mapsto> 1]" "UpdateError ''boom''"]
  by (simp add: adding_module_def failing_module_def tree_split_def sub_seed_def carried_key_def)

text \<open>
  C4 as stated fails: with two modules of states \<open>1\<close> and \<open>2\<close>, of which the second
  fails, the caller's list after the exception holds state \<open>13\<close> in its first slot.
\<close>

theorem update_pipeline_partial_list_counterexample:
  "snd (update_pipeline tree_split [adding_module 1, failing_module 2] 0 10) = Inl (UpdateError ''boom'') \<and>
   map state [adding_module 1, failing_module 2] = [1, 2] \<and>
   map state (fst (update_pipeline tree_split [adding_module 1, failing_module 2] 0 10)) = [13, 2]"
  by (simp add: update_pipeline_def update_loop.simps adding_module_def failing_module_def
        tree_split_def)

section \<open>Properties of the experience pipeline\<close>




















section \<open>Properties of the environment pool\<close>

text \<open>
  C5. On a \<^verbatim>\<open>step\<close> command whose environment step reports some agent terminated or
  truncated, the worker resets the environment before it replies; the reply's observation
  is the one the reset returned, and the reply's info is the reset's info with the step's
  observation under \<^verbatim>\<open>final_observation\<close> and the step's info under \<^verbatim>\<open>final_info\<close>. When no
  agent ends, the reply carries the step's observation and info unchanged and the
  environment is not reset.
\<close>

theorem worker_auto_reset:
  assumes "env_step E env data = (env1, observation, reward, terminated, truncated, info)"
    and "env_reset E env1 = (env2, observation', info')"
  shows "if (\<exists>a \<in> set terminated. snd a) \<or> (\<exists>a \<in> set truncated. snd a) then
           (\<exists>info''. worker_command E env (''step'', data) =
               Inr (env2, Some (StepReply (observation', reward, terminated, truncated, info'') True), True) \<and>
             map_of info'' ''final_observation'' = Some (Obs observation) \<and>
             map_of info'' ''final_info'' = Some (Info info) \<and>
             (\<forall>k. k \<noteq> ''final_observation'' \<and> k \<noteq> ''final_info'' \<longrightarrow> map_of info'' k = map_of info' k))
         else
           worker_command E env (''step'', data) =
             Inr (env1, Some (StepReply (observation, reward, terminated, truncated, info) True), True)"
  using assms
  by (auto simp: worker_command_def any_def dict_values_def list_ex_iff update_conv')

theorem worker_auto_reset_witness:
  "(\<exists>info''. worker_command counter_env 2 (''step'', ()) =
       Inr (0, Some (StepReply (0, 1, [(''a'', True)], [(''a'', False)], info'') True), True) \<and>
     map_of info'' ''final_observation'' = Some (Obs 3) \<and>
     map_of info'' ''final_info'' = Some (Info [(''count'', PInt 3)])) \<and>
   worker_command counter_env 0 (''step'', ()) =
     Inr (1, Some (StepReply (1, 1, [(''a'', False)], [(''a'', False)], [(''count'', PInt 1)]) True), True)"
  using worker_auto_reset
          [of counter_env 2 "()" 3 3 1 "[(''a'', True)]" "[(''a'', False)]" "[(''count'', PInt 3)]"
              0 0 "[(''fresh'', PBool True)]"]
        worker_auto_reset
          [of counter_env 0 "()" 1 1 1 "[(''a'', False)]" "[(''a'', False)]" "[(''count'', PInt 1)]"
              0 0 "[(''fresh'', PBool True)]"]
  by (simp add: counter_env_def) blast

lemma sequence_map_Inr:
  "(\<And>x. x \<in> set xs \<Longrightarrow> f x = Inr (g x)) \<Longrightarrow> sequence (map f xs) = Inr (map g xs)"
  by (induction xs) auto

lemma unstack_action_ok:
  "\<forall>p \<in> set actions. i < length (snd p) \<Longrightarrow>
   unstack_action actions i = Inr (map (\<lambda>(agent, action). (agent, action ! i)) actions)"
  unfolding unstack_action_def
  by (rule sequence_map_Inr) (auto simp: getitem_def)

text \<open>
  C1 (amended). \<^verbatim>\<open>step_async\<close> has no guard on a pending request. Whenever every action
  array has an entry for every worker, it succeeds whatever the value of \<^verbatim>\<open>waiting\<close>: it
  appends one \<^verbatim>\<open>step\<close> message, carrying worker \<open>i\<close>'s actions, to connection \<open>i\<close>, and sets
  \<^verbatim>\<open>waiting\<close>.
\<close>

theorem step_async_unguarded:
  assumes "\<forall>p \<in> set actions. length (parent_conns self) \<le> length (snd p)"
  shows "step_async self actions =
           Inr (self\<lparr>parent_conns :=
                       map (\<lambda>i. parent_conns self ! i @
                                 [(''step'', Some (map (\<lambda>(agent, action). (agent, action ! i)) actions))])
                         [0..<length (parent_conns self)],
                     waiting := True\<rparr>)"
proof -
  let ?n = "length (parent_conns self)"
  let ?g = "\<lambda>i. map (\<lambda>(agent, action). (agent, action ! i)) actions"
  have "sequence (map (unstack_action actions) [0..<?n]) = Inr (map ?g [0..<?n])"
    using assms by (intro sequence_map_Inr unstack_action_ok) auto
  moreover have "map (\<lambda>(conn, action). conn @ [(''step'', Some action)])
                   (zip (parent_conns self) (map ?g [0..<?n])) =
                 map (\<lambda>i. parent_conns self ! i @ [(''step'', Some (?g i))]) [0..<?n]"
    by (rule nth_equalityI) auto
  ultimately show ?thesis
    by (simp add: step_async_def)
qed

theorem step_async_unguarded_witness:
  "step_async \<lparr>waiting = True, closed = False, parent_conns = [[(''step'', Some [(''a'', 1)])]],
          agents = [''a''], num_envs = 1\<rparr>
     [(''a'', [2::int])] =
     Inr \<lparr>waiting = True, closed = False,
          parent_conns = [[(''step'', Some [(''a'', 1)]), (''step'', Some [(''a'', 2)])]],
          agents = [''a''], num_envs = 1\<rparr>"
  using step_async_unguarded
          [of "[(''a'', [2::int])]"
              "\<lparr>waiting = True, closed = False, parent_conns = [[(''step'', Some [(''a'', 1)])]],
                agents = [''a''], num_envs = 1\<rparr>"]
  by simp

text \<open>
  C1 as stated fails: a second \<^verbatim>\<open>step_async\<close> right after the first returns normally, and
  the connection then carries two \<^verbatim>\<open>step\<close> messages.
\<close>

theorem step_async_twice_counterexample:
  "step_async \<lparr>waiting = False, closed = False, parent_conns = [[]], agents = [''a''], num_envs = 1\<rparr>
     [(''a'', [1::int])] =
     Inr \<lparr>waiting = True, closed = False, parent_conns = [[(''step'', Some [(''a'', 1)])]],
          agents = [''a''], num_envs = 1\<rparr> \<and>
   step_async \<lparr>waiting = True, closed = False, parent_conns = [[(''step'', Some [(''a'', 1)])]],
          agents = [''a''], num_envs = 1\<rparr>
     [(''a'', [2::int])] =
     Inr \<lparr>waiting = True, closed = False,
          parent_conns = [[(''step'', Some [(''a'', 1)]), (''step'', Some [(''a'', 2)])]],
          agents = [''a''], num_envs = 1\<rparr>"
  by (simp add: step_async_def unstack_action_def getitem_def)

section \<open>Properties of the merged infos\<close>

lemma list_update_map_upt:
  "m < n \<Longrightarrow> (map f [0..<n])[m := x] = map (f(m := x)) [0..<n]"
  by (rule nth_equalityI) (auto simp: nth_list_update)

lemma init_info_arrays_eq:
  "init_info_arrays n (type_of v) =
     (\<lparr>dtype = dtype_of v, cells = map (\<lambda>i. default_cell (dtype_of v)) [0..<n]\<rparr>,
      \<lparr>dtype = Dbool, cells = map (\<lambda>i. PBool False) [0..<n]\<rparr>)"
  by (cases "type_of v")
     (simp_all add: init_info_arrays_def np_zeros_def np_fill_none_def dtype_of_def default_cell_def
        map_replicate_const)

lemma np_setitem_mask:
  assumes "m < n" and "\<And>i. i < n \<Longrightarrow> g i = (if i = m then PBool True else f i)"
  shows "np_setitem cast \<lparr>dtype = Dbool, cells = map f [0..<n]\<rparr> m (PBool True) =
           Inr \<lparr>dtype = Dbool, cells = map g [0..<n]\<rparr>"
proof -
  have "map (f(m := PBool True)) [0..<n] = map g [0..<n]"
    using assms(2) by (intro map_cong) auto
  then show ?thesis
    using assms(1) by (simp add: np_setitem_def np_convert_def list_update_map_upt)
qed

lemma np_setitem_value:
  assumes "m < n" and "np_convert cast d v = Inr v"
    and "\<And>i. i < n \<Longrightarrow> g i = (if i = m then v else f i)"
  shows "np_setitem cast \<lparr>dtype = d, cells = map f [0..<n]\<rparr> m v =
           Inr \<lparr>dtype = d, cells = map g [0..<n]\<rparr>"
proof -
  have "map (f(m := v)) [0..<n] = map g [0..<n]"
    using assms(3) by (intro map_cong) auto
  then show ?thesis
    using assms(1,2) by (simp add: np_setitem_def list_update_map_upt)
qed

lemma merged_infos_seen:
  "\<exists>i<n. seen i k \<Longrightarrow>
   merged_infos n I seen k =
     Some \<lparr>dtype = key_dtype n I k,
           cells = map (\<lambda>i. if seen i k then the (map_of (I i) k)
                             else default_cell (key_dtype n I k)) [0..<n]\<rparr>"
  by (simp add: merged_infos_def)

lemma merged_infos_mask:
  "\<forall>i<n. \<not> seen i (CHR ''_'' # k) \<Longrightarrow> \<exists>i<n. seen i k \<Longrightarrow>
   merged_infos n I seen (CHR ''_'' # k) =
     Some \<lparr>dtype = Dbool, cells = map (\<lambda>i. PBool (seen i k)) [0..<n]\<rparr>"
  by (auto simp: merged_infos_def)

lemma merged_infos_none:
  "\<forall>i<n. \<not> seen i k \<Longrightarrow> \<forall>k' i. k = CHR ''_'' # k' \<and> i < n \<longrightarrow> \<not> seen i k' \<Longrightarrow>
   merged_infos n I seen k = None"
  by (auto simp: merged_infos_def split: list.splits)

lemma merged_infos_unseen:
  "\<forall>i<n. \<not> seen i k \<Longrightarrow>
   merged_infos n I seen k =
     (case k of
        [] \<Rightarrow> None
      | c # k' \<Rightarrow>
          if c = CHR ''_'' \<and> (\<exists>i<n. seen i k')
          then Some \<lparr>dtype = Dbool, cells = map (\<lambda>i. PBool (seen i k')) [0..<n]\<rparr>
          else None)"
  by (auto simp: merged_infos_def)

lemma merged_infos_cong:
  assumes "\<And>i. i < n \<Longrightarrow> seen i x = seen' i x"
    and "\<And>i x'. i < n \<Longrightarrow> x = CHR ''_'' # x' \<Longrightarrow> seen i x' = seen' i x'"
  shows "merged_infos n I seen x = merged_infos n I seen' x"
proof (cases "\<exists>i<n. seen i x")
  case True
  then have t': "\<exists>i<n. seen' i x" using assms(1) by auto
  have "map (\<lambda>i. if seen i x then the (map_of (I i) x) else default_cell (key_dtype n I x)) [0..<n] =
        map (\<lambda>i. if seen' i x then the (map_of (I i) x) else default_cell (key_dtype n I x)) [0..<n]"
    using assms(1) by (intro map_cong) auto
  then show ?thesis
    using True t' merged_infos_seen [where n = n and seen = seen and k = x and I = I]
      merged_infos_seen [where n = n and seen = seen' and k = x and I = I] by simp
next
  case False
  then have f: "\<forall>i<n. \<not> seen i x" by blast
  then have f': "\<forall>i<n. \<not> seen' i x" using assms(1) by auto
  show ?thesis
  proof (cases x)
    case Nil
    then show ?thesis
      using f f' merged_infos_unseen [where n = n and seen = seen and k = x and I = I]
          merged_infos_unseen [where n = n and seen = seen' and k = x and I = I] by simp
  next
    case (Cons c x')
    have c: "(\<exists>i<n. seen i x') = (\<exists>i<n. seen' i x')" if "c = CHR ''_''"
      using assms(2) Cons that by auto
    have d: "map (\<lambda>i. PBool (seen i x')) [0..<n] = map (\<lambda>i. PBool (seen' i x')) [0..<n]"
      if "c = CHR ''_''"
      using assms(2) Cons that by (intro map_cong) auto
    show ?thesis
    proof (cases "c = CHR ''_''")
      case True
      show ?thesis
        using f f' merged_infos_unseen [where n = n and seen = seen and k = x and I = I]
          merged_infos_unseen [where n = n and seen = seen' and k = x and I = I] Cons
          c [OF True] d [OF True] True
        by simp
    next
      case False
      then show ?thesis
        using f f' merged_infos_unseen [where n = n and seen = seen and k = x and I = I]
          merged_infos_unseen [where n = n and seen = seen' and k = x and I = I] Cons by simp
    qed
  qed
qed

lemma add_info_key_step:
  fixes I :: "nat \<Rightarrow> 'o info"
  assumes m: "m < n"
    and v: "map_of (I m) k = Some v"
    and clean: "\<forall>i<n. \<forall>j<n. \<forall>x. map_of (I i) x \<noteq> None \<longrightarrow> map_of (I j) (CHR ''_'' # x) = None"
    and sub: "\<forall>i x. seen i x \<longrightarrow> i < n \<and> map_of (I i) x \<noteq> None"
    and storable: "np_convert cast (key_dtype n I k) v = Inr v"
    and fresh: "(\<forall>i<n. \<not> seen i k) \<longrightarrow> key_dtype n I k = dtype_of v"
  shows "add_info_key cast n (I m) m (merged_infos n I seen) k =
           Inr (merged_infos n I (\<lambda>i x. seen i x \<or> (i = m \<and> x = k)))"
proof -
  define seen' where "seen' = (\<lambda>i x. seen i x \<or> (i = m \<and> x = k))"
  let ?d = "key_dtype n I k"
  have uk_unseen: "\<not> seen i (CHR ''_'' # k)" for i
    using clean sub m v by (metis option.distinct(1))
  have k_not_mask: "\<not> seen i k'" if "k = CHR ''_'' # k'" for i k'
    using clean sub m v that by (metis option.distinct(1))
  have uk_unseen': "\<forall>i<n. \<not> seen' i (CHR ''_'' # k)"
    using uk_unseen by (simp add: seen'_def)
  have seen'_k: "\<exists>i<n. seen' i k" using m by (auto simp: seen'_def)
  define arr where "arr = \<lparr>dtype = ?d, cells = map (\<lambda>i. if seen' i k then the (map_of (I i) k)
                                else default_cell ?d) [0..<n]\<rparr>"
  define mask :: "'o ndarray"
    where "mask = \<lparr>dtype = Dbool, cells = map (\<lambda>i. PBool (seen' i k)) [0..<n]\<rparr>"
  have run: "add_info_key cast n (I m) m (merged_infos n I seen) k =
               Inr ((merged_infos n I seen)(k \<mapsto> arr, CHR ''_'' # k \<mapsto> mask))"
  proof (cases "\<exists>i<n. seen i k")
    case True
    have a: "merged_infos n I seen k =
               Some \<lparr>dtype = ?d, cells = map (\<lambda>i. if seen i k then the (map_of (I i) k)
                                else default_cell ?d) [0..<n]\<rparr>"
      using True by (rule merged_infos_seen)
    have b: "merged_infos n I seen (CHR ''_'' # k) =
               Some \<lparr>dtype = Dbool, cells = map (\<lambda>i. PBool (seen i k)) [0..<n]\<rparr>"
      using uk_unseen True by (intro merged_infos_mask) auto
    have c: "np_setitem cast
               \<lparr>dtype = ?d, cells = map (\<lambda>i. if seen i k then the (map_of (I i) k)
                                else default_cell ?d) [0..<n]\<rparr> m v = Inr arr"
      unfolding arr_def using m storable v
      by (intro np_setitem_value) (auto simp: seen'_def)
    have d: "np_setitem cast \<lparr>dtype = Dbool, cells = map (\<lambda>i. PBool (seen i k)) [0..<n]\<rparr> m
               (PBool True) = Inr mask"
      unfolding mask_def using m by (intro np_setitem_mask) (auto simp: seen'_def)
    show ?thesis
      unfolding add_info_key_def by (simp add: a b v c d)
  next
    case False
    have a: "merged_infos n I seen k = None"
      using False k_not_mask by (intro merged_infos_none) auto
    have dk: "?d = dtype_of v" using fresh False by blast
    have c: "np_setitem cast
               \<lparr>dtype = dtype_of v, cells = map (\<lambda>i. default_cell (dtype_of v)) [0..<n]\<rparr> m v =
               Inr arr"
      unfolding arr_def dk [symmetric]
      using m storable v False by (intro np_setitem_value) (auto simp: seen'_def)
    have d: "np_setitem cast \<lparr>dtype = Dbool, cells = map (\<lambda>i. PBool False) [0..<n]\<rparr> m
               (PBool True) = Inr mask"
      unfolding mask_def using m False by (intro np_setitem_mask) (auto simp: seen'_def)
    show ?thesis
      unfolding add_info_key_def by (simp add: a v init_info_arrays_eq c d)
  qed
  have eq: "(merged_infos n I seen)(k \<mapsto> arr, CHR ''_'' # k \<mapsto> mask) = merged_infos n I seen'"
  proof (rule ext)
    fix x
    consider "x = k" | "x = CHR ''_'' # k" | "x \<noteq> k" "x \<noteq> CHR ''_'' # k" by blast
    then show "((merged_infos n I seen)(k \<mapsto> arr, CHR ''_'' # k \<mapsto> mask)) x = merged_infos n I seen' x"
    proof cases
      case 1
      show ?thesis
        using 1 seen'_k merged_infos_seen [where n = n and seen = seen' and k = k and I = I]
        by (simp add: arr_def)
    next
      case 2
      show ?thesis
        using 2 uk_unseen' seen'_k merged_infos_mask [where n = n and seen = seen' and k = k and I = I]
        by (simp add: mask_def)
    next
      case 3
      have "merged_infos n I seen x = merged_infos n I seen' x"
        using 3 by (intro merged_infos_cong) (auto simp: seen'_def)
      then show ?thesis using 3 by simp
    qed
  qed
  show ?thesis using run eq by (simp add: seen'_def)
qed

lemma for_each_append:
  "for_each body s (xs @ ys) =
     (case for_each body s xs of Inl e \<Rightarrow> Inl e | Inr s' \<Rightarrow> for_each body s' ys)"
  by (induction xs arbitrary: s) (auto split: sum.splits)

lemma first_reported_at:
  assumes "m < n" and "map_of (I m) k = Some v" and "\<forall>i<m. map_of (I i) k = None"
  shows "first_reported (info_column k (map I [0..<n])) = Some v"
proof -
  have split: "[0..<n] = [0..<m] @ m # [Suc m..<n]"
    using assms(1) by (metis le_add1 less_imp_add_positive upt_add_eq_append upt_conv_Cons zero_le add_0)
  have "filter (\<lambda>x. x \<noteq> None) (map (\<lambda>i. map_of (I i) k) [0..<m]) = []"
    using assms(3) by (auto simp: filter_empty_conv)
  then show ?thesis
    using assms(2) by (simp add: first_reported_def info_column_def split o_def)
qed

lemma key_dtype_first:
  assumes "m < n" and "map_of (I m) k = Some v" and "\<forall>i<m. map_of (I i) k = None"
  shows "key_dtype n I k = dtype_of v"
  using first_reported_at [OF assms] by (simp add: key_dtype_def)

text \<open>The loop of \<open>add_info\<close> over a list of keys of worker \<open>m\<close>'s info.\<close>

lemma add_info_keys:
  fixes I :: "nat \<Rightarrow> 'o info"
  assumes m: "m < n"
    and clean: "\<forall>i<n. \<forall>j<n. \<forall>x. map_of (I i) x \<noteq> None \<longrightarrow> map_of (I j) (CHR ''_'' # x) = None"
    and storable: "\<forall>x v. map_of (I m) x = Some v \<longrightarrow> np_convert cast (key_dtype n I x) v = Inr v"
  shows "set ks \<subseteq> fst ` set (I m) \<Longrightarrow>
         \<forall>i x. seen i x \<longrightarrow> i < n \<and> map_of (I i) x \<noteq> None \<Longrightarrow>
         \<forall>x v. x \<in> set ks \<and> map_of (I m) x = Some v \<and> (\<forall>i<n. \<not> seen i x) \<longrightarrow> key_dtype n I x = dtype_of v \<Longrightarrow>
         for_each (add_info_key cast n (I m) m) (merged_infos n I seen) ks =
           Inr (merged_infos n I (\<lambda>i x. seen i x \<or> (i = m \<and> x \<in> set ks)))"
proof (induction ks arbitrary: seen)
  case Nil
  then show ?case by simp
next
  case (Cons k ks)
  from Cons.prems(1) obtain v where v: "map_of (I m) k = Some v"
    by (metis list.set_intros(1) subsetD weak_map_of_SomeI image_iff prod.collapse not_Some_eq
          map_of_eq_None_iff)
  define seen1 where "seen1 = (\<lambda>i x. seen i x \<or> (i = m \<and> x = k))"
  have step: "add_info_key cast n (I m) m (merged_infos n I seen) k = Inr (merged_infos n I seen1)"
    unfolding seen1_def
    using m v clean Cons.prems(2) storable Cons.prems(3)
    by (intro add_info_key_step) auto
  have sub1: "\<forall>i x. seen1 i x \<longrightarrow> i < n \<and> map_of (I i) x \<noteq> None"
    using Cons.prems(2) m v by (auto simp: seen1_def)
  have fresh1: "\<forall>x v. x \<in> set ks \<and> map_of (I m) x = Some v \<and> (\<forall>i<n. \<not> seen1 i x) \<longrightarrow>
                  key_dtype n I x = dtype_of v"
    using Cons.prems(3) by (auto simp: seen1_def)
  have "for_each (add_info_key cast n (I m) m) (merged_infos n I seen1) ks =
          Inr (merged_infos n I (\<lambda>i x. seen1 i x \<or> (i = m \<and> x \<in> set ks)))"
    using Cons.prems(1) sub1 fresh1 by (intro Cons.IH) auto
  moreover have "(\<lambda>i x. seen1 i x \<or> (i = m \<and> x \<in> set ks)) =
                 (\<lambda>i x. seen i x \<or> (i = m \<and> x \<in> set (k # ks)))"
    by (auto simp: seen1_def fun_eq_iff)
  ultimately show ?case using step by simp
qed

lemma seen_before_Suc:
  "(\<lambda>i x. seen_before I m i x \<or> (i = m \<and> x \<in> fst ` set (I m))) = seen_before I (Suc m)"
  by (auto simp: seen_before_def fun_eq_iff less_Suc_eq map_of_eq_None_iff)

lemma seen_before_Suc_idem:
  "(\<lambda>i x. seen_before I (Suc m) i x \<or> (i = m \<and> x \<in> fst ` set (I m))) = seen_before I (Suc m)"
  by (auto simp: seen_before_def fun_eq_iff less_Suc_eq map_of_eq_None_iff)

text \<open>One call of \<open>add_info\<close> for worker \<open>m\<close>, the first or a repeated one.\<close>

lemma add_info_worker:
  fixes I :: "nat \<Rightarrow> 'o info"
  assumes m: "m < n"
    and clean: "\<forall>i<n. \<forall>j<n. \<forall>x. map_of (I i) x \<noteq> None \<longrightarrow> map_of (I j) (CHR ''_'' # x) = None"
    and storable: "\<forall>x v. map_of (I m) x = Some v \<longrightarrow> np_convert cast (key_dtype n I x) v = Inr v"
    and start: "infos = merged_infos n I (seen_before I m) \<or> infos = merged_infos n I (seen_before I (Suc m))"
  shows "add_info cast n infos (I m) m = Inr (merged_infos n I (seen_before I (Suc m)))"
proof -
  have first: "add_info cast n (merged_infos n I (seen_before I m)) (I m) m =
                 Inr (merged_infos n I (seen_before I (Suc m)))"
  proof -
    have "for_each (add_info_key cast n (I m) m) (merged_infos n I (seen_before I m)) (map fst (I m)) =
            Inr (merged_infos n I (\<lambda>i x. seen_before I m i x \<or> (i = m \<and> x \<in> set (map fst (I m)))))"
    proof (intro add_info_keys [OF m clean storable])
      show "set (map fst (I m)) \<subseteq> fst ` set (I m)" by simp
      show "\<forall>i x. seen_before I m i x \<longrightarrow> i < n \<and> map_of (I i) x \<noteq> None"
        using m by (auto simp: seen_before_def)
      show "\<forall>x v. x \<in> set (map fst (I m)) \<and> map_of (I m) x = Some v \<and> (\<forall>i<n. \<not> seen_before I m i x) \<longrightarrow>
              key_dtype n I x = dtype_of v"
      proof (intro allI impI)
        fix x v
        assume a: "x \<in> set (map fst (I m)) \<and> map_of (I m) x = Some v \<and> (\<forall>i<n. \<not> seen_before I m i x)"
        then have "\<forall>i<m. map_of (I i) x = None"
          using m by (auto simp: seen_before_def)
        then show "key_dtype n I x = dtype_of v"
          using a m by (intro key_dtype_first) auto
      qed
    qed
    then show ?thesis by (simp add: add_info_def seen_before_Suc)
  qed
  have again: "add_info cast n (merged_infos n I (seen_before I (Suc m))) (I m) m =
                 Inr (merged_infos n I (seen_before I (Suc m)))"
  proof -
    have "for_each (add_info_key cast n (I m) m) (merged_infos n I (seen_before I (Suc m)))
            (map fst (I m)) =
            Inr (merged_infos n I (\<lambda>i x. seen_before I (Suc m) i x \<or> (i = m \<and> x \<in> set (map fst (I m)))))"
    proof (intro add_info_keys [OF m clean storable])
      show "set (map fst (I m)) \<subseteq> fst ` set (I m)" by simp
      show "\<forall>i x. seen_before I (Suc m) i x \<longrightarrow> i < n \<and> map_of (I i) x \<noteq> None"
        using m by (auto simp: seen_before_def)
      show "\<forall>x v. x \<in> set (map fst (I m)) \<and> map_of (I m) x = Some v \<and>
              (\<forall>i<n. \<not> seen_before I (Suc m) i x) \<longrightarrow> key_dtype n I x = dtype_of v"
        using m by (auto simp: seen_before_def)
    qed
    then show ?thesis by (simp add: add_info_def seen_before_Suc_idem)
  qed
  show ?thesis using start first again by auto
qed

lemma append_item_ok:
  assumes "has_agents A acc" and "a \<in> set A" and "map_of d a \<noteq> None"
  shows "\<exists>acc'. append_item acc a d = Inr acc' \<and> has_agents A acc'"
  using assms by (auto simp: append_item_def has_agents_def split: option.splits)

lemma step_wait_agent_ok:
  fixes I :: "nat \<Rightarrow> (string \<times> 'ob) list info"
  assumes m: "m < n"
    and clean: "\<forall>i<n. \<forall>j<n. \<forall>x. map_of (I i) x \<noteq> None \<longrightarrow> map_of (I j) (CHR ''_'' # x) = None"
    and storable: "\<forall>x v. map_of (I m) x = Some v \<longrightarrow> np_convert cast (key_dtype n I x) v = Inr v"
    and covers: "reply_covers A ((obs, rew, terminated, truncated, I m), success)"
    and a: "a \<in> set A"
    and acc: "has_agents A os" "has_agents A rs" "has_agents A ts" "has_agents A us"
    and start: "infos = merged_infos n I (seen_before I m) \<or> infos = merged_infos n I (seen_before I (Suc m))"
  shows "\<exists>os' rs' ts' us'.
           step_wait_agent cast n (obs, rew, terminated, truncated, I m) m (os, rs, ts, us, infos) a =
             Inr (os', rs', ts', us', merged_infos n I (seen_before I (Suc m))) \<and>
           has_agents A os' \<and> has_agents A rs' \<and> has_agents A ts' \<and> has_agents A us'"
proof -
  from covers a have c: "map_of obs a \<noteq> None" "map_of rew a \<noteq> None"
    "map_of terminated a \<noteq> None" "map_of truncated a \<noteq> None"
    by (auto simp: reply_covers_def)
  obtain os' where os': "append_item os a obs = Inr os'" "has_agents A os'"
    using append_item_ok [OF acc(1) a c(1)] by blast
  obtain rs' where rs': "append_item rs a rew = Inr rs'" "has_agents A rs'"
    using append_item_ok [OF acc(2) a c(2)] by blast
  obtain ts' where ts': "append_item ts a terminated = Inr ts'" "has_agents A ts'"
    using append_item_ok [OF acc(3) a c(3)] by blast
  obtain us' where us': "append_item us a truncated = Inr us'" "has_agents A us'"
    using append_item_ok [OF acc(4) a c(4)] by blast
  have "add_info cast n infos (I m) m = Inr (merged_infos n I (seen_before I (Suc m)))"
    using m clean storable start by (rule add_info_worker)
  then show ?thesis
    using os' rs' ts' us' by (simp add: step_wait_agent_def)
qed

lemma step_wait_agents_ok:
  fixes I :: "nat \<Rightarrow> (string \<times> 'ob) list info"
  assumes m: "m < n"
    and clean: "\<forall>i<n. \<forall>j<n. \<forall>x. map_of (I i) x \<noteq> None \<longrightarrow> map_of (I j) (CHR ''_'' # x) = None"
    and storable: "\<forall>x v. map_of (I m) x = Some v \<longrightarrow> np_convert cast (key_dtype n I x) v = Inr v"
    and covers: "reply_covers A ((obs, rew, terminated, truncated, I m), success)"
  shows "set as \<subseteq> set A \<Longrightarrow>
         has_agents A os \<Longrightarrow> has_agents A rs \<Longrightarrow> has_agents A ts \<Longrightarrow> has_agents A us \<Longrightarrow>
         infos = merged_infos n I (seen_before I m) \<or> infos = merged_infos n I (seen_before I (Suc m)) \<Longrightarrow>
         \<exists>os' rs' ts' us'.
           for_each (step_wait_agent cast n (obs, rew, terminated, truncated, I m) m)
             (os, rs, ts, us, infos) as =
             Inr (os', rs', ts', us',
                  if as = [] then infos else merged_infos n I (seen_before I (Suc m))) \<and>
           has_agents A os' \<and> has_agents A rs' \<and> has_agents A ts' \<and> has_agents A us'"
proof (induction as arbitrary: os rs ts us infos)
  case Nil
  then show ?case by simp
next
  case (Cons a as)
  have a: "a \<in> set A" using Cons.prems(1) by simp
  obtain os1 rs1 ts1 us1 where
    step: "step_wait_agent cast n (obs, rew, terminated, truncated, I m) m (os, rs, ts, us, infos) a =
             Inr (os1, rs1, ts1, us1, merged_infos n I (seen_before I (Suc m)))"
    and h: "has_agents A os1" "has_agents A rs1" "has_agents A ts1" "has_agents A us1"
    using step_wait_agent_ok [OF m clean storable covers a Cons.prems(2,3,4,5,6)] by blast
  have "\<exists>os' rs' ts' us'.
          for_each (step_wait_agent cast n (obs, rew, terminated, truncated, I m) m)
            (os1, rs1, ts1, us1, merged_infos n I (seen_before I (Suc m))) as =
            Inr (os', rs', ts', us',
                 if as = [] then merged_infos n I (seen_before I (Suc m))
                 else merged_infos n I (seen_before I (Suc m))) \<and>
          has_agents A os' \<and> has_agents A rs' \<and> has_agents A ts' \<and> has_agents A us'"
    using Cons.prems(1) h by (intro Cons.IH) auto
  then show ?case using step by auto
qed

lemma merged_infos_start: "merged_infos n I (seen_before I 0) = Map.empty"
  by (rule ext) (auto simp: merged_infos_def seen_before_def split: list.splits)

lemma has_agents_empty_lists: "has_agents A (empty_lists A)"
  by (auto simp: has_agents_def empty_lists_def map_of_eq_None_iff image_iff)

lemma step_wait_conns_ok:
  fixes recv :: "nat \<Rightarrow> ('ob, 'rw) pool_reply"
  assumes A: "A \<noteq> []"
    and clean: "\<forall>i<n. \<forall>j<n. \<forall>x. map_of (reply_info recv i) x \<noteq> None \<longrightarrow>
                  map_of (reply_info recv j) (CHR ''_'' # x) = None"
    and storable: "\<forall>i<n. \<forall>x v. map_of (reply_info recv i) x = Some v \<longrightarrow>
                     np_convert cast (key_dtype n (reply_info recv) x) v = Inr v"
    and covers: "\<forall>i<n. reply_covers A (recv i)"
  shows "m \<le> n \<Longrightarrow>
         \<exists>os rs ts us.
           for_each (step_wait_conn cast n A recv)
             (empty_lists A, empty_lists A, empty_lists A, empty_lists A, Map.empty) [0..<m] =
             Inr (os, rs, ts, us, merged_infos n (reply_info recv) (seen_before (reply_info recv) m)) \<and>
           has_agents A os \<and> has_agents A rs \<and> has_agents A ts \<and> has_agents A us"
proof (induction m)
  case 0
  then show ?case by (simp add: merged_infos_start has_agents_empty_lists)
next
  case (Suc m)
  let ?I = "reply_info recv"
  have m: "m < n" using Suc.prems by simp
  obtain os rs ts us where
    before: "for_each (step_wait_conn cast n A recv)
               (empty_lists A, empty_lists A, empty_lists A, empty_lists A, Map.empty) [0..<m] =
               Inr (os, rs, ts, us, merged_infos n ?I (seen_before ?I m))"
    and h: "has_agents A os" "has_agents A rs" "has_agents A ts" "has_agents A us"
    using Suc.IH m by auto
  obtain obs rew terminated truncated info success where
    r: "recv m = ((obs, rew, terminated, truncated, info), success)"
    by (metis prod.collapse)
  have info: "info = ?I m" using r by (simp add: reply_info_def)
  have cov: "reply_covers A ((obs, rew, terminated, truncated, ?I m), success)"
    using covers m r info by auto
  have st: "\<forall>x v. map_of (?I m) x = Some v \<longrightarrow> np_convert cast (key_dtype n ?I x) v = Inr v"
    using storable m by blast
  have "\<exists>os' rs' ts' us'.
          for_each (step_wait_agent cast n (obs, rew, terminated, truncated, ?I m) m)
            (os, rs, ts, us, merged_infos n ?I (seen_before ?I m)) A =
            Inr (os', rs', ts', us',
                 if A = [] then merged_infos n ?I (seen_before ?I m)
                 else merged_infos n ?I (seen_before ?I (Suc m))) \<and>
          has_agents A os' \<and> has_agents A rs' \<and> has_agents A ts' \<and> has_agents A us'"
    using h by (intro step_wait_agents_ok [OF m clean st cov]) auto
  then obtain os' rs' ts' us' where
    conn: "step_wait_conn cast n A recv (os, rs, ts, us, merged_infos n ?I (seen_before ?I m)) m =
             Inr (os', rs', ts', us', merged_infos n ?I (seen_before ?I (Suc m)))"
    and h': "has_agents A os'" "has_agents A rs'" "has_agents A ts'" "has_agents A us'"
    using A r info by (auto simp: step_wait_conn_def)
  show ?case
    using before conn h' by (simp add: for_each_append)
qed

lemma least_reporter:
  fixes i n :: nat
  assumes "i < n" and "map_of (I i) k \<noteq> None"
  shows "\<exists>m v. m < n \<and> map_of (I m) k = Some v \<and> (\<forall>j<m. map_of (I j) k = None)"
proof -
  define m where "m = (LEAST j. map_of (I j) k \<noteq> None)"
  have a: "map_of (I m) k \<noteq> None"
    unfolding m_def using assms(2) by (rule LeastI [of "\<lambda>j. map_of (I j) k \<noteq> None"])
  have b: "m \<le> i"
    unfolding m_def using assms(2) by (rule Least_le [of "\<lambda>j. map_of (I j) k \<noteq> None"])
  have c: "\<forall>j<m. map_of (I j) k = None"
    unfolding m_def using not_less_Least by blast
  show ?thesis using a b c assms(1) by (intro exI [of _ m]) auto
qed

text \<open>
  C9 (amended). Take a \<^verbatim>\<open>step_wait\<close> over the \<open>N\<close> workers of a pool that has at least one
  agent, where every reply has an entry for every agent in its observation, reward,
  terminated and truncated dictionaries, where no reported info key is an underscore
  followed by another reported info key, and where numpy stores every reported value
  unchanged into an array of its key's element type. Then \<^verbatim>\<open>step_wait\<close> returns, and each
  info key \<open>k\<close> reported by at least one worker maps to an array of \<open>N\<close> cells whose element
  type is that of the value of the first worker reporting \<open>k\<close>, with worker \<open>i\<close>'s value in
  cell \<open>i\<close> and the element type's default in the cells of the workers that did not report
  \<open>k\<close>; the key \<open>_k\<close> maps to a boolean array of \<open>N\<close> cells that is true exactly at the workers
  that reported \<open>k\<close>; no other key is present.
\<close>

theorem step_wait_merges_infos:
  fixes recv :: "nat \<Rightarrow> ('ob, 'rw) pool_reply"
  assumes "agents self \<noteq> []"
    and "num_envs self = length (parent_conns self)"
    and "\<forall>i<num_envs self. reply_covers (agents self) (recv i)"
    and "\<forall>i<num_envs self. \<forall>j<num_envs self. \<forall>k.
           map_of (reply_info recv i) k \<noteq> None \<longrightarrow> map_of (reply_info recv j) (CHR ''_'' # k) = None"
    and "\<forall>i<num_envs self. \<forall>k v.
           map_of (reply_info recv i) k = Some v \<longrightarrow>
           np_convert cast (key_dtype (num_envs self) (reply_info recv) k) v = Inr v"
  shows "\<exists>os rs ts us infos.
           step_wait cast self recv = Inr (self\<lparr>waiting := False\<rparr>, os, rs, ts, us, infos) \<and>
           (\<forall>k. (\<exists>i<num_envs self. map_of (reply_info recv i) k \<noteq> None) \<longrightarrow>
              (\<exists>arr mask.
                 infos k = Some arr \<and> infos (CHR ''_'' # k) = Some mask \<and>
                 length (cells arr) = num_envs self \<and> length (cells mask) = num_envs self \<and>
                 dtype mask = Dbool \<and>
                 (\<exists>m v. m < num_envs self \<and> map_of (reply_info recv m) k = Some v \<and>
                    (\<forall>j<m. map_of (reply_info recv j) k = None) \<and> dtype arr = dtype_of v) \<and>
                 (\<forall>i<num_envs self.
                    cells arr ! i =
                      (case map_of (reply_info recv i) k of
                         Some v \<Rightarrow> v | None \<Rightarrow> default_cell (dtype arr)) \<and>
                    cells mask ! i = PBool (map_of (reply_info recv i) k \<noteq> None)))) \<and>
           (\<forall>k. (\<forall>i<num_envs self. map_of (reply_info recv i) k = None \<and>
                    (\<forall>k'. k = CHR ''_'' # k' \<longrightarrow> map_of (reply_info recv i) k' = None)) \<longrightarrow>
              infos k = None)"
proof -
  let ?n = "num_envs self"
  let ?I = "reply_info recv"
  let ?seen = "seen_before ?I ?n"
  obtain os rs ts us where
    run: "for_each (step_wait_conn cast ?n (agents self) recv)
            (empty_lists (agents self), empty_lists (agents self), empty_lists (agents self),
             empty_lists (agents self), Map.empty) [0..<?n] =
            Inr (os, rs, ts, us, merged_infos ?n ?I ?seen)"
    using step_wait_conns_ok [OF assms(1,4,5,3), of ?n] by auto
  have sw: "step_wait cast self recv = Inr (self\<lparr>waiting := False\<rparr>, os, rs, ts, us, merged_infos ?n ?I ?seen)"
    using run assms(2) by (simp add: step_wait_def)
  have reported: "\<exists>arr mask.
         merged_infos ?n ?I ?seen k = Some arr \<and> merged_infos ?n ?I ?seen (CHR ''_'' # k) = Some mask \<and>
         length (cells arr) = ?n \<and> length (cells mask) = ?n \<and> dtype mask = Dbool \<and>
         (\<exists>m v. m < ?n \<and> map_of (?I m) k = Some v \<and> (\<forall>j<m. map_of (?I j) k = None) \<and>
            dtype arr = dtype_of v) \<and>
         (\<forall>i<?n. cells arr ! i =
                    (case map_of (?I i) k of Some v \<Rightarrow> v | None \<Rightarrow> default_cell (dtype arr)) \<and>
                  cells mask ! i = PBool (map_of (?I i) k \<noteq> None))"
    if k: "\<exists>i<?n. map_of (?I i) k \<noteq> None" for k
  proof -
    have s: "\<exists>i<?n. ?seen i k" using k by (auto simp: seen_before_def)
    have u: "\<forall>i<?n. \<not> ?seen i (CHR ''_'' # k)"
      using k assms(4) by (auto simp: seen_before_def)
    obtain m v where m: "m < ?n" "map_of (?I m) k = Some v" "\<forall>j<m. map_of (?I j) k = None"
      using k least_reporter [of _ ?n ?I k] by blast
    have d: "key_dtype ?n ?I k = dtype_of v"
      using m by (intro key_dtype_first) auto
    have a: "merged_infos ?n ?I ?seen k =
               Some \<lparr>dtype = key_dtype ?n ?I k,
                     cells = map (\<lambda>i. if ?seen i k then the (map_of (?I i) k)
                                       else default_cell (key_dtype ?n ?I k)) [0..<?n]\<rparr>"
      using s by (rule merged_infos_seen)
    have b: "merged_infos ?n ?I ?seen (CHR ''_'' # k) =
               Some \<lparr>dtype = Dbool, cells = map (\<lambda>i. PBool (?seen i k)) [0..<?n]\<rparr>"
      using u s by (rule merged_infos_mask)
    show ?thesis
      unfolding a b using m d
      by (auto simp: seen_before_def split: option.splits)
  qed
  have absent: "merged_infos ?n ?I ?seen k = None"
    if "\<forall>i<?n. map_of (?I i) k = None \<and> (\<forall>k'. k = CHR ''_'' # k' \<longrightarrow> map_of (?I i) k' = None)" for k
    using that by (intro merged_infos_none) (auto simp: seen_before_def)
  show ?thesis
    using sw reported absent by blast
qed

lemma two_replies_info:
  "reply_info two_replies 0 = [(''x'', PInt 5)]"
  "reply_info two_replies (Suc 0) = [(''y'', PStr ''hi'')]"
  by (simp_all add: reply_info_def two_replies_def)

lemma two_replies_dtype:
  "key_dtype 2 (reply_info two_replies) ''x'' = Dint"
  "key_dtype 2 (reply_info two_replies) ''y'' = Dobject"
  by (simp_all add: key_dtype_def first_reported_def info_column_def two_replies_info dtype_of_def
        numeral_2_eq_2)

theorem step_wait_merges_infos_witness:
  "\<exists>os rs ts us infos.
     step_wait exact_cast two_workers two_replies =
       Inr (two_workers\<lparr>waiting := False\<rparr>, os, rs, ts, us, infos) \<and>
     (\<exists>arr mask. infos ''x'' = Some arr \<and> infos ''_x'' = Some mask \<and>
        dtype arr = Dint \<and> cells arr ! 0 = PInt 5 \<and> cells arr ! 1 = PInt 0 \<and>
        cells mask ! 0 = PBool True \<and> cells mask ! 1 = PBool False) \<and>
     infos ''z'' = None"
proof -
  have h1: "agents two_workers \<noteq> []" by (simp add: two_workers_def)
  have h2: "num_envs two_workers = length (parent_conns two_workers)" by (simp add: two_workers_def)
  have n: "num_envs two_workers = Suc (Suc 0)" by (simp add: two_workers_def)
  have a: "agents two_workers = [''a'']" by (simp add: two_workers_def)
  have h3: "\<forall>i<num_envs two_workers. reply_covers (agents two_workers) (two_replies i)"
    unfolding n a by (auto simp: All_less_Suc reply_covers_def two_replies_def)
  have h4: "\<forall>i<num_envs two_workers. \<forall>j<num_envs two_workers. \<forall>k.
           map_of (reply_info two_replies i) k \<noteq> None \<longrightarrow>
           map_of (reply_info two_replies j) (CHR ''_'' # k) = None"
    unfolding n by (simp add: All_less_Suc two_replies_info)
  have h5: "\<forall>i<num_envs two_workers. \<forall>k v.
           map_of (reply_info two_replies i) k = Some v \<longrightarrow>
           np_convert exact_cast (key_dtype (num_envs two_workers) (reply_info two_replies) k) v = Inr v"
    unfolding n using two_replies_dtype
    by (simp add: All_less_Suc two_replies_info np_convert_def exact_cast_def numeral_2_eq_2)
  from step_wait_merges_infos [OF h1 h2 h3 h4 h5]
  obtain os rs ts us infos where
    sw: "step_wait exact_cast two_workers two_replies =
           Inr (two_workers\<lparr>waiting := False\<rparr>, os, rs, ts, us, infos)"
    and rep: "\<And>k. \<exists>i<num_envs two_workers. map_of (reply_info two_replies i) k \<noteq> None \<Longrightarrow>
              \<exists>arr mask.
                 infos k = Some arr \<and> infos (CHR ''_'' # k) = Some mask \<and>
                 length (cells arr) = num_envs two_workers \<and> length (cells mask) = num_envs two_workers \<and>
                 dtype mask = Dbool \<and>
                 (\<exists>m v. m < num_envs two_workers \<and> map_of (reply_info two_replies m) k = Some v \<and>
                    (\<forall>j<m. map_of (reply_info two_replies j) k = None) \<and> dtype arr = dtype_of v) \<and>
                 (\<forall>i<num_envs two_workers.
                    cells arr ! i =
                      (case map_of (reply_info two_replies i) k of
                         Some v \<Rightarrow> v | None \<Rightarrow> default_cell (dtype arr)) \<and>
                    cells mask ! i = PBool (map_of (reply_info two_replies i) k \<noteq> None))"
    and absent: "\<And>k. \<forall>i<num_envs two_workers. map_of (reply_info two_replies i) k = None \<and>
                    (\<forall>k'. k = CHR ''_'' # k' \<longrightarrow> map_of (reply_info two_replies i) k' = None) \<Longrightarrow>
              infos k = None"
    by blast
  have "\<exists>i<num_envs two_workers. map_of (reply_info two_replies i) ''x'' \<noteq> None"
    by (auto simp: n two_replies_info intro!: exI [of _ 0])
  from rep [OF this] obtain arr mask where
    am: "infos ''x'' = Some arr" "infos ''_x'' = Some mask"
    and d: "\<exists>m v. m < num_envs two_workers \<and> map_of (reply_info two_replies m) ''x'' = Some v \<and>
                    (\<forall>j<m. map_of (reply_info two_replies j) ''x'' = None) \<and> dtype arr = dtype_of v"
    and c: "\<forall>i<num_envs two_workers.
                    cells arr ! i =
                      (case map_of (reply_info two_replies i) ''x'' of
                         Some v \<Rightarrow> v | None \<Rightarrow> default_cell (dtype arr)) \<and>
                    cells mask ! i = PBool (map_of (reply_info two_replies i) ''x'' \<noteq> None)"
    by auto
  have dt: "dtype arr = Dint"
    using d by (auto simp: n less_Suc_eq two_replies_info dtype_of_def)
  have cs: "cells arr ! 0 = PInt 5 \<and> cells arr ! 1 = PInt 0 \<and>
            cells mask ! 0 = PBool True \<and> cells mask ! 1 = PBool False"
    using c dt by (simp add: n All_less_Suc two_replies_info default_cell_def)
  have z: "infos ''z'' = None"
    by (rule absent) (simp add: n All_less_Suc two_replies_info)
  show ?thesis using sw am dt cs z by blast
qed

text \<open>
  C9 as stated fails when a worker reports both a key and the same key with an underscore
  in front: the mask of \<^verbatim>\<open>x\<close> is stored under \<^verbatim>\<open>_x\<close>, so the reported key \<^verbatim>\<open>_x\<close> is found in
  the merged dictionary and its mask \<^verbatim>\<open>__x\<close> is looked up, which raises a key error.
\<close>

theorem step_wait_underscore_key_counterexample:
  "reply_info underscore_reply 0 = [(''x'', PInt 1), (''_x'', PInt 2)] \<and>
   step_wait exact_cast one_worker underscore_reply = Inl (KeyError ''__x'')"
  by (simp add: step_wait_def step_wait_conn_def step_wait_agent_def append_item_def add_info_def
        add_info_key_def init_info_arrays_def np_zeros_def np_setitem_def np_convert_def
        exact_cast_def empty_lists_def one_worker_def underscore_reply_def reply_info_def)

section \<open>Properties of the training state\<close>

lemma incremental_update_polyak:
  "incremental_update live old t = Inr new \<Longrightarrow> polyak_of t live old (Some new)"
  by (auto simp: incremental_update_def polyak_of_def split: option.splits if_splits
           intro!: nth_equalityI)

lemma polyak_targets_result:
  assumes "polyak_targets t p q = Inr (p', q')"
  shows "params p' = params p \<and> opt_state p' = opt_state p \<and>
         params q' = params q \<and> opt_state q' = opt_state q \<and>
         polyak_of t (params p) (target_params p) (target_params p') \<and>
         polyak_of t (params q) (target_params q) (target_params q')"
  using assms
  by (auto simp: polyak_targets_def split: sum.splits dest: incremental_update_polyak)

lemma td3_update_step_gated:
  assumes "td3_update_step_fn L P p q batch step = Inr (q', p', info)"
    and "step mod policy_update_frequency P = 0"
  shows "params q' = fst (qvalue_grad_step L q batch) \<and>
         params p' = fst (policy_grad_step L p (params q') batch) \<and>
         polyak_of (tau P) (params p') (target_params p) (target_params p') \<and>
         polyak_of (tau P) (params q') (target_params q) (target_params q')"
  using assms
  by (auto simp: td3_update_step_fn_def td3_update_policy_fn_def update_qvalue_fn_def
           split: prod.splits sum.splits if_splits dest!: polyak_targets_result)

lemma td3_update_step_skipped:
  assumes "td3_update_step_fn L P p q batch step = Inr (q', p', info)"
    and "step mod policy_update_frequency P \<noteq> 0"
  shows "params q' = fst (qvalue_grad_step L q batch) \<and>
         target_params q' = target_params q \<and> p' = p"
  using assms
  by (auto simp: td3_update_step_fn_def update_qvalue_fn_def split: prod.splits sum.splits if_splits)

lemma sac_update_step_targets:
  assumes "sac_update_step_fn L t s key batch = Inr (s', info)"
  shows "params (qvalue_state s') = fst (sac_qvalue_grad_step L (qvalue_state s) batch) \<and>
         polyak_of t (params (policy_state s')) (target_params (policy_state s))
           (target_params (policy_state s')) \<and>
         polyak_of t (params (qvalue_state s')) (target_params (qvalue_state s))
           (target_params (qvalue_state s')) \<and>
         target_params (alpha_state s') = target_params (alpha_state s)"
  using assms
  by (auto simp: sac_update_step_fn_def sac_update_policy_fn_def update_qvalue_fn_def update_alpha_fn_def
           split: prod.splits sum.splits if_splits dest!: polyak_targets_result)

lemma polyak_of_leaf:
  "polyak_of t live (Some old) (Some new) \<Longrightarrow> i < length old \<Longrightarrow>
   new ! i = t * live ! i + (1 - t) * old ! i"
  by (auto simp: polyak_of_def)

text \<open>
  C2 (amended). Every update step takes a gradient step on the Q-value sub-state's live
  parameters. In SAC every update step then sets the policy target and the Q-value target
  to the smoothing \<open>t * live + (1 - t) * old_target\<close> of the old target toward the new live
  parameters, leaf by leaf, with the configured \<open>tau\<close>, and leaves the temperature
  sub-state, which has no target, without one. In TD3 an update step whose step counter is
  a multiple of \<^verbatim>\<open>policy_update_frequency\<close> does the same for both targets; on every other
  step the Q-value sub-state takes its gradient step while both targets and the policy
  sub-state stay as they were.
\<close>

theorem target_update_rule:
  "(td3_update_step_fn L P p q batch step = Inr (q', p', info) \<longrightarrow>
      params q' = fst (qvalue_grad_step L q batch) \<and>
      (if step mod policy_update_frequency P = 0
       then polyak_of (tau P) (params p') (target_params p) (target_params p') \<and>
            polyak_of (tau P) (params q') (target_params q) (target_params q')
       else target_params q' = target_params q \<and> p' = p)) \<and>
   (sac_update_step_fn L' t s key batch' = Inr (s', info') \<longrightarrow>
      polyak_of t (params (policy_state s')) (target_params (policy_state s))
        (target_params (policy_state s')) \<and>
      polyak_of t (params (qvalue_state s')) (target_params (qvalue_state s))
        (target_params (qvalue_state s')) \<and>
      target_params (alpha_state s') = target_params (alpha_state s)) \<and>
   (\<forall>live old new i. polyak_of t live (Some old) (Some new) \<and> i < length old \<longrightarrow>
      new ! i = t * live ! i + (1 - t) * old ! i)"
  using td3_update_step_gated [of L P p q batch step q' p' info]
        td3_update_step_skipped [of L P p q batch step q' p' info]
        sac_update_step_targets [of L' t s key batch' s' info']
        polyak_of_leaf [of t]
  by (cases "step mod policy_update_frequency P = 0") auto

lemma td3_run_gated:
  "td3_update_step_fn shift_td3_losses half_tau_params zero_state zero_state () 2 =
     Inr (\<lparr>params = [1], target_params = Some [1 / 2], opt_state = ()\<rparr>,
          \<lparr>params = [2], target_params = Some [1], opt_state = ()\<rparr>,
          ([''loss_qvalue'' \<mapsto> 3] ++ [''loss_policy'' \<mapsto> 4])(''total_loss'' \<mapsto> 7))"
  by (simp add: td3_update_step_fn_def td3_update_policy_fn_def update_qvalue_fn_def
        polyak_targets_def incremental_update_def shift_td3_losses_def half_tau_params_def
        zero_state_def)

lemma sac_run:
  "sac_update_step_fn shift_sac_losses (1 / 2) zero_sac_state (0::nat) () =
     Inr (\<lparr>policy_state = \<lparr>params = [2], target_params = Some [1], opt_state = ()\<rparr>,
           qvalue_state = \<lparr>params = [1], target_params = Some [1 / 2], opt_state = ()\<rparr>,
           alpha_state = \<lparr>params = [3], target_params = None, opt_state = ()\<rparr>\<rparr>,
          ([''loss_qvalue'' \<mapsto> 3] ++ [''loss_policy'' \<mapsto> 4, ''entropy'' \<mapsto> 0]
             ++ [''loss_alpha'' \<mapsto> 5, ''alpha'' \<mapsto> 1])(''total_loss'' \<mapsto> 12))"
  by (simp add: sac_update_step_fn_def sac_update_policy_fn_def update_qvalue_fn_def
        update_alpha_fn_def polyak_targets_def incremental_update_def shift_sac_losses_def
        zero_sac_state_def zero_state_def)

theorem target_update_rule_witness:
  "polyak_of (1 / 2) [2] (Some [0]) (Some [1]) \<and>
   polyak_of (1 / 2) [1] (Some [0]) (Some [1 / 2]) \<and>
   [1 / 2] ! 0 = (1 / 2) * [1] ! 0 + (1 - 1 / 2) * [0::real] ! 0 \<and>
   (\<exists>q' p' info. td3_update_step_fn shift_td3_losses half_tau_params zero_state zero_state () 2 =
      Inr (q', p', info) \<and> target_params q' = Some [1 / 2] \<and> target_params p' = Some [1]) \<and>
   (\<exists>s' info. sac_update_step_fn shift_sac_losses (1 / 2) zero_sac_state (0::nat) () = Inr (s', info) \<and>
      target_params (qvalue_state s') = Some [1 / 2] \<and> target_params (policy_state s') = Some [1])"
  using target_update_rule
          [of shift_td3_losses half_tau_params zero_state zero_state "()" 2
              "\<lparr>params = [1], target_params = Some [1 / 2], opt_state = ()\<rparr>"
              "\<lparr>params = [2], target_params = Some [1], opt_state = ()\<rparr>"
              "([''loss_qvalue'' \<mapsto> 3] ++ [''loss_policy'' \<mapsto> 4])(''total_loss'' \<mapsto> 7)"
              shift_sac_losses "1 / 2" zero_sac_state "0::nat" "()"
              "\<lparr>policy_state = \<lparr>params = [2], target_params = Some [1], opt_state = ()\<rparr>,
                qvalue_state = \<lparr>params = [1], target_params = Some [1 / 2], opt_state = ()\<rparr>,
                alpha_state = \<lparr>params = [3], target_params = None, opt_state = ()\<rparr>\<rparr>"
              "([''loss_qvalue'' \<mapsto> 3] ++ [''loss_policy'' \<mapsto> 4, ''entropy'' \<mapsto> 0]
                 ++ [''loss_alpha'' \<mapsto> 5, ''alpha'' \<mapsto> 1])(''total_loss'' \<mapsto> 12)"]
        td3_run_gated sac_run
  by (simp add: half_tau_params_def zero_state_def zero_sac_state_def polyak_of_def
        shift_td3_losses_def shift_sac_losses_def)

text \<open>
  C2 as stated fails in TD3 at a step that is not a multiple of the policy update
  frequency (here step \<open>1\<close> with frequency \<open>2\<close> and \<open>tau = 1/2\<close>): the gradient step moves the
  Q-value leaf from \<open>0\<close> to \<open>1\<close>, and the target leaf stays \<open>0\<close> instead of becoming \<open>1/2\<close>.
\<close>

theorem target_not_updated_counterexample:
  "(case td3_update_step_fn shift_td3_losses half_tau_params zero_state zero_state () 1 of
      Inr (q', p', info) \<Rightarrow>
        params zero_state = [0] \<and> params q' = [1] \<and>
        target_params zero_state = Some [0] \<and> target_params q' = Some [0] \<and>
        tau half_tau_params * 1 + (1 - tau half_tau_params) * 0 \<noteq> (0::real)
    | Inl e \<Rightarrow> False)"
  by (simp add: td3_update_step_fn_def update_qvalue_fn_def shift_td3_losses_def
        half_tau_params_def zero_state_def)

text \<open>
  C6 (amended). The factories of TD3 and SAC create the policy and Q-value sub-states with
  target parameters equal to the live parameters, leaf for leaf. Every update step
  afterwards leaves each target either unchanged or equal to the smoothing of the old
  target toward the new live parameters with coefficient \<open>tau\<close>.
\<close>

theorem target_params_lifecycle:
  "target_params (policy_state (train_state_ddpg_factory split pinit qinit tx key tabulate)) =
     Some (params (policy_state (train_state_ddpg_factory split pinit qinit tx key tabulate))) \<and>
   target_params (qvalue_state (train_state_ddpg_factory split pinit qinit tx key tabulate)) =
     Some (params (qvalue_state (train_state_ddpg_factory split pinit qinit tx key tabulate))) \<and>
   target_params (policy_state (train_state_sac_factory split pinit qinit ainit tx key tabulate)) =
     Some (params (policy_state (train_state_sac_factory split pinit qinit ainit tx key tabulate))) \<and>
   target_params (qvalue_state (train_state_sac_factory split pinit qinit ainit tx key tabulate)) =
     Some (params (qvalue_state (train_state_sac_factory split pinit qinit ainit tx key tabulate))) \<and>
   (td3_update_step_fn L P p q batch step = Inr (q', p', info) \<longrightarrow>
      (target_params p' = target_params p \<or>
       polyak_of (tau P) (params p') (target_params p) (target_params p')) \<and>
      (target_params q' = target_params q \<or>
       polyak_of (tau P) (params q') (target_params q) (target_params q'))) \<and>
   (sac_update_step_fn L' t s key' batch' = Inr (s', info') \<longrightarrow>
      polyak_of t (params (policy_state s')) (target_params (policy_state s))
        (target_params (policy_state s')) \<and>
      polyak_of t (params (qvalue_state s')) (target_params (qvalue_state s))
        (target_params (qvalue_state s')) \<and>
      target_params (alpha_state s') = target_params (alpha_state s))"
proof -
  have init:
    "target_params (policy_state (train_state_ddpg_factory split pinit qinit tx key tabulate)) =
       Some (params (policy_state (train_state_ddpg_factory split pinit qinit tx key tabulate)))"
    "target_params (qvalue_state (train_state_ddpg_factory split pinit qinit tx key tabulate)) =
       Some (params (qvalue_state (train_state_ddpg_factory split pinit qinit tx key tabulate)))"
    "target_params (policy_state (train_state_sac_factory split pinit qinit ainit tx key tabulate)) =
       Some (params (policy_state (train_state_sac_factory split pinit qinit ainit tx key tabulate)))"
    "target_params (qvalue_state (train_state_sac_factory split pinit qinit ainit tx key tabulate)) =
       Some (params (qvalue_state (train_state_sac_factory split pinit qinit ainit tx key tabulate)))"
    by (simp_all add: train_state_ddpg_factory_def train_state_sac_factory_def create_def
          init_params_def Let_def)
  have td3: "td3_update_step_fn L P p q batch step = Inr (q', p', info) \<longrightarrow>
      (target_params p' = target_params p \<or>
       polyak_of (tau P) (params p') (target_params p) (target_params p')) \<and>
      (target_params q' = target_params q \<or>
       polyak_of (tau P) (params q') (target_params q) (target_params q'))"
    using td3_update_step_gated [of L P p q batch step q' p' info]
          td3_update_step_skipped [of L P p q batch step q' p' info]
    by (cases "step mod policy_update_frequency P = 0") auto
  have sac: "sac_update_step_fn L' t s key' batch' = Inr (s', info') \<longrightarrow>
      polyak_of t (params (policy_state s')) (target_params (policy_state s))
        (target_params (policy_state s')) \<and>
      polyak_of t (params (qvalue_state s')) (target_params (qvalue_state s))
        (target_params (qvalue_state s')) \<and>
      target_params (alpha_state s') = target_params (alpha_state s)"
    using sac_update_step_targets [of L' t s key' batch' s' info'] by blast
  show ?thesis using init td3 sac by blast
qed

theorem target_params_lifecycle_witness:
  "target_params (policy_state (train_state_ddpg_factory tree_split const_init const_init (\<lambda>ps. ()) 0 True)) =
     Some [1, 1] \<and>
   params (policy_state (train_state_ddpg_factory tree_split const_init const_init (\<lambda>ps. ()) 0 True)) =
     [1, 1] \<and>
   (\<exists>q' p' info. td3_update_step_fn shift_td3_losses half_tau_params zero_state zero_state () 2 =
      Inr (q', p', info) \<and> polyak_of (1 / 2) (params q') (Some [0]) (target_params q')) \<and>
   (\<exists>s' info. sac_update_step_fn shift_sac_losses (1 / 2) zero_sac_state (0::nat) () = Inr (s', info) \<and>
      polyak_of (1 / 2) (params (qvalue_state s')) (Some [0]) (target_params (qvalue_state s')))"
  using target_params_lifecycle
          [of tree_split const_init const_init "\<lambda>ps. ()" 0 True const_init
              shift_td3_losses half_tau_params zero_state zero_state "()" 2
              "\<lparr>params = [1], target_params = Some [1 / 2], opt_state = ()\<rparr>"
              "\<lparr>params = [2], target_params = Some [1], opt_state = ()\<rparr>"
              "([''loss_qvalue'' \<mapsto> 3] ++ [''loss_policy'' \<mapsto> 4])(''total_loss'' \<mapsto> 7)"
              shift_sac_losses "1 / 2" zero_sac_state "0::nat" "()"
              "\<lparr>policy_state = \<lparr>params = [2], target_params = Some [1], opt_state = ()\<rparr>,
                qvalue_state = \<lparr>params = [1], target_params = Some [1 / 2], opt_state = ()\<rparr>,
                alpha_state = \<lparr>params = [3], target_params = None, opt_state = ()\<rparr>\<rparr>"
              "([''loss_qvalue'' \<mapsto> 3] ++ [''loss_policy'' \<mapsto> 4, ''entropy'' \<mapsto> 0]
                 ++ [''loss_alpha'' \<mapsto> 5, ''alpha'' \<mapsto> 1])(''total_loss'' \<mapsto> 12)"]
        td3_run_gated sac_run
  by (simp add: half_tau_params_def zero_state_def zero_sac_state_def polyak_of_def
        shift_td3_losses_def shift_sac_losses_def train_state_ddpg_factory_def create_def
        init_params_def const_init_def tree_split_def)

text \<open>
  C6 as stated fails for \<^verbatim>\<open>TD3.resume\<close>, which replaces the whole training state by the
  restored checkpoint: the target leaf goes from \<open>0\<close> to the checkpoint's \<open>5\<close>, which is not
  the smoothing of \<open>0\<close> toward the restored live leaf \<open>3\<close>.
\<close>

theorem resume_overwrites_target_counterexample:
  "(case td3_resume resuming_td3 of
      Inr (step, self') \<Rightarrow>
        target_params (qvalue_state (td3_state resuming_td3)) = Some [0] \<and>
        target_params (qvalue_state (td3_state self')) = Some [5] \<and>
        params (qvalue_state (td3_state self')) = [3] \<and>
        \<not> polyak_of (tau (td3_algo_params resuming_td3)) (params (qvalue_state (td3_state self')))
             (target_params (qvalue_state (td3_state resuming_td3)))
             (target_params (qvalue_state (td3_state self')))
    | Inl e \<Rightarrow> False)"
  by (simp add: td3_resume_def restore_latest_step_def latest_step_def resuming_td3_def
        saved_state_def zero_state_def half_tau_params_def polyak_of_def)

section \<open>Properties of action selection\<close>

text \<open>
  C3 (amended). DQN's \<^verbatim>\<open>select_action\<close> calls the exploration function with exploration
  coefficient \<open>0\<close> where \<^verbatim>\<open>explore\<close> passes the configured coefficient; its result does not
  depend on the configured coefficient, and it is the greedy action whenever the uniform
  sample is positive. TD3's \<^verbatim>\<open>select_action\<close> passes action noise \<open>0\<close> and depends neither on
  the configured parameters nor on the step counter, where \<^verbatim>\<open>explore\<close> passes the
  configured noise once the warm-up is over. SAC's \<^verbatim>\<open>select_action\<close> is \<^verbatim>\<open>explore\<close>.
\<close>

theorem select_action_exploration:
  "fst (dqn_select_action D dself obs) =
     dqn_explore_fn D (dqn_state_params dself) (snd (dqn_nextkey D (dqn_key dself))) obs 0 \<and>
   fst (dqn_explore D dself obs) =
     dqn_explore_fn D (dqn_state_params dself) (snd (dqn_nextkey D (dqn_key dself))) obs
       (dqn_exploration dself) \<and>
   fst (dqn_select_action D (dself\<lparr>dqn_exploration := x\<rparr>) obs) = fst (dqn_select_action D dself obs) \<and>
   (argmax (dqn_apply_fn D ps obs) = Inr g \<and> 0 < dqn_uniform D (dqn_split D k 2 0) \<longrightarrow>
      dqn_explore_fn D ps k obs 0 = Inr (g, 0)) \<and>
   fst (td3_select_action T tself tobs) =
     td3_explore_fn T (policy_state (td3_state tself)) (snd (td3_nextkey T (td3_key tself))) tobs 0 \<and>
   fst (td3_select_action T (tself\<lparr>td3_algo_params := P, td3_step := n\<rparr>) tobs) =
     fst (td3_select_action T tself tobs) \<and>
   (start_step (td3_algo_params tself) \<le> td3_step tself \<longrightarrow>
      fst (td3_explore T tself tobs) =
        td3_explore_fn T (policy_state (td3_state tself)) (snd (td3_nextkey T (td3_key tself))) tobs
          (action_noise (td3_algo_params tself))) \<and>
   sac_select_action S sself sobs = sac_explore S sself sobs"
  by (simp add: dqn_select_action_def dqn_explore_def dqn_explore_fn_def NO_EXPLORATION_def
        td3_select_action_def td3_explore_def sac_select_action_def Let_def case_prod_unfold)

theorem select_action_exploration_witness:
  "fst (dqn_select_action table_dqn_fns table_dqn ()) = Inr (1, 0) \<and>
   fst (dqn_explore table_dqn_fns table_dqn ()) = Inr (0, 0) \<and>
   fst (td3_select_action noisy_td3_fns trained_td3 ()) = ([0], [0]) \<and>
   fst (td3_explore noisy_td3_fns trained_td3 ()) = ([1 / 5], [0])"
  using select_action_exploration
          [where D = table_dqn_fns and dself = table_dqn and obs = "()" and x = "3 / 4"
             and ps = "[1, 7, 2]" and g = 1 and k = 2
             and T = noisy_td3_fns and tself = trained_td3 and tobs = "()"
             and P = half_tau_params and n = 9
             and S = noisy_sac_fns and sself = warming_sac and sobs = "()"]
  by (simp add: table_dqn_fns_def table_dqn_def noisy_td3_fns_def trained_td3_def resuming_td3_def
        half_tau_params_def zero_state_def tree_split_def argmax_def dqn_explore_fn_def
        td3_explore_fn_def clip_def Let_def)

text \<open>
  C3 as stated fails for SAC: during the warm-up (\<open>step < start_step\<close>) \<^verbatim>\<open>select_action\<close>
  returns the uniformly drawn action that \<^verbatim>\<open>explore\<close> returns, not the policy's action.
\<close>

theorem sac_select_action_explores_counterexample:
  "sac_step warming_sac < sac_start_step warming_sac \<and>
   sac_explore_fn noisy_sac_fns (policy_state (sac_state warming_sac))
     (snd (sac_interact_keys noisy_sac_fns (sac_key warming_sac))) () = ([1 / 2], [0]) \<and>
   fst (sac_select_action noisy_sac_fns warming_sac ()) = ([- 3 / 10], [0]) \<and>
   fst (sac_select_action noisy_sac_fns warming_sac ()) = fst (sac_explore noisy_sac_fns warming_sac ())"
  by (simp add: sac_select_action_def sac_explore_def sac_explore_fn_def noisy_sac_fns_def
        warming_sac_def zero_sac_state_def zero_state_def clip_def tree_split_def)

end
